theory Spec2Isabelle
  imports Main "HOL-Library.Word"
begin

section \<open>JavaScript strings\<close>

text \<open>
  A JavaScript string is a sequence of UTF-16 code units.  Source literals are ASCII and
  are written through \<open>js\<close>.
\<close>

type_synonym code_unit = "16 word"
type_synonym jsstring = "code_unit list"

definition js :: "string \<Rightarrow> jsstring" where
  "js s = map (\<lambda>c. word_of_nat (of_char c)) s"

text \<open>
  The class \<^verbatim>\<open>\s\<close> of a regular expression, which is also the set of code units that
  \<^verbatim>\<open>String.prototype.trim\<close> removes: WhiteSpace and LineTerminator of ECMAScript.
\<close>

definition isspace :: "code_unit \<Rightarrow> bool" where
  "isspace c \<longleftrightarrow>
     c = 0x09 \<or> c = 0x0A \<or> c = 0x0B \<or> c = 0x0C \<or> c = 0x0D \<or> c = 0x20 \<or> c = 0xA0 \<or>
     c = 0x1680 \<or> (0x2000 \<le> c \<and> c \<le> 0x200A) \<or> c = 0x2028 \<or> c = 0x2029 \<or>
     c = 0x202F \<or> c = 0x205F \<or> c = 0x3000 \<or> c = 0xFEFF"

text \<open>The class \<^verbatim>\<open>\d\<close>: the ASCII digits.\<close>

definition isdigit :: "code_unit \<Rightarrow> bool" where
  "isdigit c \<longleftrightarrow> 0x30 \<le> c \<and> c \<le> 0x39"

text \<open>\<^verbatim>\<open>s.trim()\<close>\<close>

definition trim :: "jsstring \<Rightarrow> jsstring" where
  "trim s = rev (dropWhile isspace (rev (dropWhile isspace s)))"

text \<open>\<^verbatim>\<open>s.replace(/\s+/g, ' ')\<close>: every maximal run of white space becomes one space.\<close>

function replace_ws :: "jsstring \<Rightarrow> jsstring" where
  "replace_ws [] = []"
| "replace_ws (c # cs) =
     (if isspace c then 0x20 # replace_ws (dropWhile isspace cs) else c # replace_ws cs)"
  by pat_completeness auto
termination
  by (relation "measure length") (auto simp: length_dropWhile_le less_Suc_eq_le)

section \<open>JavaScript numbers\<close>

text \<open>
  The Number values that the parser can produce: integers that a binary64 float holds
  exactly, the infinities and \<open>NaN\<close>.  \<open>to_double\<close> is the rounding of a non-negative
  mathematical integer to the nearest binary64 value, ties to even; \<open>bitlen n\<close> is the
  number of binary digits of \<open>n\<close>.
\<close>

datatype number = Num int | Infinity | NegInfinity | NaN

function bitlen :: "int \<Rightarrow> nat" where
  "bitlen n = (if n \<le> 0 then 0 else Suc (bitlen (n div 2)))"
  by pat_completeness auto
termination
  by (relation "measure nat") auto

declare bitlen.simps [simp del]

definition to_double :: "int \<Rightarrow> number" where
  "to_double n =
     (if n \<le> 2 ^ 53 then Num n
      else let e = bitlen n - 53;
               q = n div 2 ^ e;
               r = n mod 2 ^ e;
               q' = (if 2 * r > 2 ^ e \<or> (2 * r = 2 ^ e \<and> odd q) then q + 1 else q);
               v = q' * 2 ^ e
           in if v \<ge> 2 ^ 1024 then Infinity else Num v)"

text \<open>Unary minus.\<close>

fun negate :: "number \<Rightarrow> number" where
  "negate (Num n) = Num (- n)"
| "negate Infinity = NegInfinity"
| "negate NegInfinity = Infinity"
| "negate NaN = NaN"

text \<open>\<^verbatim>\<open>x - 1\<close>: exact inside the range of safe integers, rounded outside.\<close>

fun minus_one :: "number \<Rightarrow> number" where
  "minus_one (Num n) =
     (if - (2 ^ 53) < n \<and> n \<le> 2 ^ 53 then Num (n - 1)
      else if 0 < n then to_double (n - 1)
      else negate (to_double (1 - n)))"
| "minus_one Infinity = Infinity"
| "minus_one NegInfinity = NegInfinity"
| "minus_one NaN = NaN"

text \<open>\<^verbatim>\<open>Math.max(0, x)\<close>\<close>

fun math_max0 :: "number \<Rightarrow> number" where
  "math_max0 (Num n) = Num (max 0 n)"
| "math_max0 Infinity = Infinity"
| "math_max0 NegInfinity = Num 0"
| "math_max0 NaN = NaN"

text \<open>\<^verbatim>\<open>x < y\<close>\<close>

fun num_less :: "number \<Rightarrow> number \<Rightarrow> bool" where
  "num_less (Num a) (Num b) = (a < b)"
| "num_less (Num a) Infinity = True"
| "num_less NegInfinity (Num b) = True"
| "num_less NegInfinity Infinity = True"
| "num_less x y = False"

text \<open>\<^verbatim>\<open>x >= 0\<close>\<close>

fun num_ge0 :: "number \<Rightarrow> bool" where
  "num_ge0 (Num n) = (0 \<le> n)"
| "num_ge0 Infinity = True"
| "num_ge0 NegInfinity = False"
| "num_ge0 NaN = False"

definition digit_val :: "code_unit \<Rightarrow> int" where
  "digit_val c = uint c - 48"

definition decimal :: "jsstring \<Rightarrow> int" where
  "decimal ds = foldl (\<lambda>acc d. 10 * acc + digit_val d) 0 ds"

text \<open>
  \<^verbatim>\<open>parseInt(s, 10)\<close>: leading white space is skipped, an optional sign is read, and
  the longest prefix of digits is the value; no digit gives \<open>NaN\<close>.
\<close>

definition parseInt10 :: "jsstring \<Rightarrow> number" where
  "parseInt10 s =
     (let t = dropWhile isspace s;
          neg = (t \<noteq> [] \<and> hd t = 0x2D);
          u = (if t \<noteq> [] \<and> (hd t = 0x2D \<or> hd t = 0x2B) then tl t else t);
          ds = takeWhile isdigit u
      in if ds = [] then NaN
         else if neg then negate (to_double (decimal ds))
         else to_double (decimal ds))"

section \<open>Regular expressions\<close>

text \<open>
  The fragment of ECMAScript regular expressions that the extension uses: a sequence of
  items, each a character class taken once or under a greedy \<^verbatim>\<open>*\<close> or \<^verbatim>\<open>+\<close>,
  possibly inside a capture group.  Matching is by backtracking: a greedy quantifier first
  tries one more repetition and falls back to the rest of the pattern when that fails.
\<close>

datatype cclass = Lit code_unit | Digit | Space | NotLit code_unit

fun cmatch :: "cclass \<Rightarrow> code_unit \<Rightarrow> bool" where
  "cmatch (Lit a) c = (c = a)"
| "cmatch Digit c = isdigit c"
| "cmatch Space c = isspace c"
| "cmatch (NotLit a) c = (c \<noteq> a)"

datatype quant = Once | Star | Plus

record item =
  cls :: cclass
  quant :: quant
  captured :: bool

definition lit :: "char \<Rightarrow> item" where
  "lit c = \<lparr>cls = Lit (word_of_nat (of_char c)), quant = Once, captured = False\<rparr>"

text \<open>The result of a successful match: the capture groups in order, and the input left.\<close>

type_synonym match_result = "(jsstring list \<times> jsstring) option"

definition record_capture :: "item \<Rightarrow> jsstring \<Rightarrow> match_result \<Rightarrow> match_result" where
  "record_capture it acc r =
     (case r of None \<Rightarrow> None
      | Some (caps, rest) \<Rightarrow> Some (if captured it then acc # caps else caps, rest))"

fun rx_match :: "item list \<Rightarrow> jsstring \<Rightarrow> match_result"
  and rx_repeat :: "item \<Rightarrow> item list \<Rightarrow> jsstring \<Rightarrow> jsstring \<Rightarrow> match_result" where
  "rx_match [] s = Some ([], s)"
| "rx_match (it # its) [] =
     (if quant it = Star then rx_repeat it its [] [] else None)"
| "rx_match (it # its) (c # cs) =
     (if quant it = Star then rx_repeat it its [] (c # cs)
      else if cmatch (cls it) c
      then (if quant it = Plus then rx_repeat it its [c] cs
            else record_capture it [c] (rx_match its cs))
      else None)"
| "rx_repeat it its acc [] = record_capture it acc (rx_match its [])"
| "rx_repeat it its acc (c # cs) =
     (if cmatch (cls it) c
      then (case rx_repeat it its (acc @ [c]) cs of
              Some r \<Rightarrow> Some r
            | None \<Rightarrow> record_capture it acc (rx_match its (c # cs)))
      else record_capture it acc (rx_match its (c # cs)))"

text \<open>
  \<^verbatim>\<open>re.exec(s)\<close> of a global expression, \<open>s\<close> being the input from \<^verbatim>\<open>lastIndex\<close>
  on: the match at the leftmost position where the pattern matches.
\<close>

fun rx_exec :: "item list \<Rightarrow> jsstring \<Rightarrow> match_result" where
  "rx_exec p [] = rx_match p []"
| "rx_exec p (c # cs) =
     (case rx_match p (c # cs) of Some r \<Rightarrow> Some r | None \<Rightarrow> rx_exec p cs)"

section \<open>The diagnostic parser\<close>

record PositionedError =
  line :: number
  col :: number
  message :: jsstring

definition plus_group :: "cclass \<Rightarrow> item" where
  "plus_group c = \<lparr>cls = c, quant = Plus, captured = True\<rparr>"

text \<open>\<^verbatim>\<open>/<stdin>:(\d+):(\d+):\s*([^<]+)/g\<close>\<close>

definition re :: "item list" where
  "re = map lit ''<stdin>:'' @
     [plus_group Digit, lit CHR '':'', plus_group Digit, lit CHR '':'',
      \<lparr>cls = Space, quant = Star, captured = False\<rparr>,
      plus_group (NotLit 0x3C)]"

text \<open>The body of the loop: \<open>m\<close> holds the groups \<^verbatim>\<open>m[1]\<close>, \<^verbatim>\<open>m[2]\<close>, \<^verbatim>\<open>m[3]\<close>.\<close>

definition to_error :: "jsstring list \<Rightarrow> PositionedError" where
  "to_error m =
     \<lparr>line = math_max0 (minus_one (parseInt10 (m ! 0))),
      col = math_max0 (minus_one (parseInt10 (m ! 1))),
      message = trim (m ! 2)\<rparr>"

text \<open>
  \<^verbatim>\<open>while ((m = re.exec(normalized))) { ... errors.push(...) }\<close>: the argument is the
  input from \<^verbatim>\<open>re.lastIndex\<close> on, and a match moves \<^verbatim>\<open>lastIndex\<close> to its end.
\<close>

function exec_loop :: "jsstring \<Rightarrow> PositionedError list" where
  "exec_loop s =
     (case rx_exec re s of
        None \<Rightarrow> []
      | Some (m, rest) \<Rightarrow> to_error m # exec_loop rest)"
  by pat_completeness auto

definition parseAlloyErrors :: "jsstring \<Rightarrow> PositionedError list" where
  "parseAlloyErrors stderr =
     (if stderr = [] then [] else exec_loop (trim (replace_ws stderr)))"

section \<open>Documents and diagnostics of the editor\<close>

text \<open>
  What the extension uses of the editor's interface.  A document has at least one line in
  the editor; \<open>lineAt\<close> fails (the editor throws) outside the lines of the document.
  The constructors of the editor check their arguments, and \<open>None\<close> stands for the
  exception they throw: a \<open>Position\<close> refuses a negative line or character, a \<open>Range\<close>
  puts the earlier of its two positions first, and a \<open>Diagnostic\<close> refuses an empty
  message and has no source until one is assigned.  A uri is identified with its string,
  the key of the timers.
\<close>

record document =
  uri :: jsstring
  languageId :: jsstring
  doc_lines :: "jsstring list"
  eol :: jsstring

fun join_lines :: "jsstring \<Rightarrow> jsstring list \<Rightarrow> jsstring" where
  "join_lines sep [] = []"
| "join_lines sep [l] = l"
| "join_lines sep (l # ls) = l @ sep @ join_lines sep ls"

definition getText :: "document \<Rightarrow> jsstring" where
  "getText d = join_lines (eol d) (doc_lines d)"

definition lineCount :: "document \<Rightarrow> int" where
  "lineCount d = int (length (doc_lines d))"

record Position =
  pos_line :: number
  character :: number

definition new_Position :: "number \<Rightarrow> number \<Rightarrow> Position option" where
  "new_Position l c =
     (if num_less l (Num 0) \<or> num_less c (Num 0) then None
      else Some \<lparr>pos_line = l, character = c\<rparr>)"

definition isBefore :: "Position \<Rightarrow> Position \<Rightarrow> bool" where
  "isBefore a b =
     (if num_less (pos_line a) (pos_line b) then True
      else if num_less (pos_line b) (pos_line a) then False
      else num_less (character a) (character b))"

record Range =
  range_start :: Position
  range_end :: Position

definition new_Range :: "Position \<Rightarrow> Position \<Rightarrow> Range" where
  "new_Range start end =
     (if isBefore start end then \<lparr>range_start = start, range_end = end\<rparr>
      else \<lparr>range_start = end, range_end = start\<rparr>)"

definition lineAt :: "document \<Rightarrow> number \<Rightarrow> Range option" where
  "lineAt d n =
     (case n of
        Num i \<Rightarrow>
          if 0 \<le> i \<and> i < lineCount d
          then Some \<lparr>range_start = \<lparr>pos_line = Num i, character = Num 0\<rparr>,
                     range_end = \<lparr>pos_line = Num i,
                                  character = Num (int (length (doc_lines d ! nat i)))\<rparr>\<rparr>
          else None
      | _ \<Rightarrow> None)"

text \<open>\<^verbatim>\<open>Math.min(x, n)\<close> for an integer \<open>n\<close>.\<close>

fun math_min :: "number \<Rightarrow> int \<Rightarrow> number" where
  "math_min (Num a) b = Num (min a b)"
| "math_min Infinity b = Num b"
| "math_min NegInfinity b = NegInfinity"
| "math_min NaN b = NaN"

datatype DiagnosticSeverity = Error | Warning | Information | Hint

record Diagnostic =
  range :: Range
  diag_message :: jsstring
  severity :: DiagnosticSeverity
  source :: "jsstring option"

definition new_Diagnostic :: "Range \<Rightarrow> jsstring \<Rightarrow> DiagnosticSeverity \<Rightarrow> Diagnostic option" where
  "new_Diagnostic r msg sev =
     (if msg = [] then None
      else Some \<lparr>range = r, diag_message = msg, severity = sev, source = None\<rparr>)"

datatype TextEdit = Replace Range jsstring

section \<open>The background validator\<close>

text \<open>
  The state of \<^verbatim>\<open>setupDiagnostics\<close> and of the runtime around it: the diagnostic
  collection, the map \<^verbatim>\<open>timers\<close>, the timeouts of \<^verbatim>\<open>setTimeout\<close> that are pending (each
  with the document its callback holds), the processes that \<^verbatim>\<open>validate\<close> has spawned and
  that have not closed (each with its document and the standard error read so far), and the
  error messages shown to the user.
\<close>

record child =
  child_doc :: document
  child_stderr :: jsstring

record extension =
  collection :: "jsstring \<rightharpoonup> Diagnostic list"
  timers :: "jsstring \<rightharpoonup> nat"
  timeouts :: "(nat \<times> document) list"
  next_timeout :: nat
  children :: "(nat \<times> child) list"
  next_child :: nat
  shown :: "jsstring list"

definition activated :: extension where
  "activated = \<lparr>collection = Map.empty, timers = Map.empty, timeouts = [], next_timeout = 0,
     children = [], next_child = 0, shown = []\<rparr>"

definition collection_set :: "jsstring \<Rightarrow> Diagnostic list \<Rightarrow> extension \<Rightarrow> extension" where
  "collection_set u ds s = s\<lparr>collection := (collection s)(u \<mapsto> ds)\<rparr>"

definition collection_delete :: "jsstring \<Rightarrow> extension \<Rightarrow> extension" where
  "collection_delete u s = s\<lparr>collection := (collection s)(u := None)\<rparr>"

definition clearTimeout :: "nat \<Rightarrow> extension \<Rightarrow> extension" where
  "clearTimeout h s = s\<lparr>timeouts := filter (\<lambda>(h', d). h' \<noteq> h) (timeouts s)\<rparr>"

text \<open>
  The callback of \<^verbatim>\<open>parsed.map\<close> in \<^verbatim>\<open>validate\<close>; \<open>None\<close> when it throws.  Only
  \<^verbatim>\<open>document.lineAt\<close> is inside its \<^verbatim>\<open>try\<close>.
\<close>

definition to_diagnostic :: "document \<Rightarrow> PositionedError \<Rightarrow> Diagnostic option" where
  "to_diagnostic d e =
     (case new_Position (line e) (col e) of
        None \<Rightarrow> None
      | Some start \<Rightarrow>
          let end = (case lineAt d (math_min (line e) (lineCount d - 1)) of
                       Some lineInfo \<Rightarrow> range_end lineInfo
                     | None \<Rightarrow> start)
          in case new_Diagnostic (new_Range start end) (message e) Error of
               None \<Rightarrow> None
             | Some dg \<Rightarrow> Some (dg\<lparr>source := Some (js ''alloy fmt'')\<rparr>))"

text \<open>
  The listener of the child's \<^verbatim>\<open>close\<close> event in \<^verbatim>\<open>validate\<close>; the exit code is
  \<open>None\<close> (\<^verbatim>\<open>null\<close>) when a signal ended the process.  When the callback of
  \<^verbatim>\<open>parsed.map\<close> throws for one of the records, the listener ends there, before
  \<^verbatim>\<open>collection.set\<close>.
\<close>

definition validate_close :: "document \<Rightarrow> jsstring \<Rightarrow> int option \<Rightarrow> extension \<Rightarrow> extension" where
  "validate_close d stderr code s =
     (if code = Some 0 then collection_set (uri d) [] s
      else let parsed = parseAlloyErrors stderr
           in if parsed = [] then collection_set (uri d) [] s
              else case those (map (to_diagnostic d) parsed) of
                     None \<Rightarrow> s
                   | Some diags \<Rightarrow> collection_set (uri d) diags s)"

text \<open>
  \<^verbatim>\<open>validate(document)\<close> up to its return: the process is spawned with listeners for
  the data of its standard error and for \<^verbatim>\<open>close\<close>; \<open>write_throws\<close> tells whether
  writing the text to its standard input throws.
\<close>

definition validate :: "document \<Rightarrow> bool \<Rightarrow> extension \<Rightarrow> extension" where
  "validate d write_throws s =
     (if languageId d \<noteq> js ''river'' then s
      else let s1 = s\<lparr>children := children s @ [(next_child s, \<lparr>child_doc = d, child_stderr = []\<rparr>)],
                       next_child := next_child s + 1\<rparr>
           in if write_throws then collection_set (uri d) [] s1 else s1)"

definition scheduleValidate :: "document \<Rightarrow> nat \<Rightarrow> extension \<Rightarrow> extension" where
  "scheduleValidate d delay s =
     (let key = uri d;
          s1 = (case timers s key of Some existing \<Rightarrow> clearTimeout existing s | None \<Rightarrow> s);
          to = next_timeout s1;
          s2 = s1\<lparr>timeouts := timeouts s1 @ [(to, d)], next_timeout := to + 1\<rparr>
      in s2\<lparr>timers := (timers s2)(key \<mapsto> to)\<rparr>)"

text \<open>The callback that \<^verbatim>\<open>scheduleValidate\<close> gives to \<^verbatim>\<open>setTimeout\<close>, when the timeout fires.\<close>

definition timeout_fires :: "nat \<Rightarrow> bool \<Rightarrow> extension \<Rightarrow> extension" where
  "timeout_fires h write_throws s =
     (case map_of (timeouts s) h of
        None \<Rightarrow> s
      | Some d \<Rightarrow>
          let s1 = clearTimeout h s;
              s2 = s1\<lparr>timers := (timers s1)(uri d := None)\<rparr>
          in validate d write_throws s2)"

text \<open>The listener of \<^verbatim>\<open>onDidCloseTextDocument\<close>.\<close>

definition closeTextDocument :: "document \<Rightarrow> extension \<Rightarrow> extension" where
  "closeTextDocument d s =
     (let s1 = collection_delete (uri d) s;
          key = uri d;
          s2 = (case timers s1 key of Some t \<Rightarrow> clearTimeout t s1 | None \<Rightarrow> s1)
      in s2\<lparr>timers := (timers s2)(key := None)\<rparr>)"

text \<open>
  The events that reach the validator.  \<open>Schedule\<close> stands for the activation and for
  the open, change, save and editor-switch listeners, which all call
  \<^verbatim>\<open>scheduleValidate\<close>.  A child's \<^verbatim>\<open>error\<close> event (the process could not be started)
  has no listener in \<^verbatim>\<open>validate\<close>.
\<close>

datatype event =
    Schedule document nat
  | TimeoutFires nat bool
  | StderrData nat jsstring
  | ChildClose nat "int option"
  | ChildError nat jsstring
  | CloseTextDocument document

fun step :: "extension \<Rightarrow> event \<Rightarrow> extension" where
  "step s (Schedule d delay) = scheduleValidate d delay s"
| "step s (TimeoutFires h write_throws) = timeout_fires h write_throws s"
| "step s (StderrData pid chunk) =
     s\<lparr>children := map (\<lambda>(p, c). if p = pid then (p, c\<lparr>child_stderr := child_stderr c @ chunk\<rparr>)
                                 else (p, c)) (children s)\<rparr>"
| "step s (ChildClose pid code) =
     (case map_of (children s) pid of
        None \<Rightarrow> s
      | Some c \<Rightarrow>
          validate_close (child_doc c) (child_stderr c) code
            (s\<lparr>children := filter (\<lambda>(p, c). p \<noteq> pid) (children s)\<rparr>))"
| "step s (ChildError pid msg) = s"
| "step s (CloseTextDocument d) = closeTextDocument d s"

definition run :: "event list \<Rightarrow> extension" where
  "run evs = foldl step activated evs"

text \<open>The pending timeouts and the running validations of a document.\<close>

definition pending_timeouts :: "extension \<Rightarrow> jsstring \<Rightarrow> nat list" where
  "pending_timeouts s u = map fst (filter (\<lambda>(h, d). uri d = u) (timeouts s))"

definition in_flight :: "extension \<Rightarrow> jsstring \<Rightarrow> nat list" where
  "in_flight s u = map fst (filter (\<lambda>(p, c). uri (child_doc c) = u) (children s))"

section \<open>The formatter\<close>

datatype promise = Pending | Fulfilled jsstring | Rejected jsstring

definition resolve :: "jsstring \<Rightarrow> promise \<Rightarrow> promise" where
  "resolve v p = (if p = Pending then Fulfilled v else p)"

definition reject :: "jsstring \<Rightarrow> promise \<Rightarrow> promise" where
  "reject msg p = (if p = Pending then Rejected msg else p)"

text \<open>Template literals: a number as a decimal string, \<^verbatim>\<open>null\<close> as \<^verbatim>\<open>"null"\<close>.\<close>

function dec_digits :: "int \<Rightarrow> jsstring" where
  "dec_digits n =
     (if n < 10 then [word_of_int (48 + n)]
      else dec_digits (n div 10) @ [word_of_int (48 + n mod 10)])"
  by pat_completeness auto
termination
  by (relation "measure nat") auto

declare dec_digits.simps [simp del]

fun code_to_string :: "int option \<Rightarrow> jsstring" where
  "code_to_string None = js ''null''"
| "code_to_string (Some n) = (if n < 0 then 0x2D # dec_digits (- n) else dec_digits n)"

text \<open>
  In \<^verbatim>\<open>runAlloyFmt\<close>: the text read from the child's output streams so far, and the
  promise it returns.
\<close>

record invocation =
  stdout :: jsstring
  stderr :: jsstring
  settled :: promise

datatype child_event =
    StdoutChunk jsstring
  | StderrChunk jsstring
  | ErrorEvent jsstring
  | CloseEvent "int option"

text \<open>The four listeners of \<^verbatim>\<open>runAlloyFmt\<close>; \<open>ErrorEvent\<close> carries \<^verbatim>\<open>err.message\<close>.\<close>

fun on_event :: "invocation \<Rightarrow> child_event \<Rightarrow> invocation" where
  "on_event i (StdoutChunk chunk) = i\<lparr>stdout := stdout i @ chunk\<rparr>"
| "on_event i (StderrChunk chunk) = i\<lparr>stderr := stderr i @ chunk\<rparr>"
| "on_event i (ErrorEvent m) =
     i\<lparr>settled := reject (js ''Failed to start formatter: '' @ m) (settled i)\<rparr>"
| "on_event i (CloseEvent code) =
     (if code = Some 0 then i\<lparr>settled := resolve (stdout i) (settled i)\<rparr>
      else let msg = (if stderr i \<noteq> [] then stderr i
                      else js ''alloy fmt exited with code '' @ code_to_string code)
           in i\<lparr>settled := reject msg (settled i)\<rparr>)"

text \<open>
  \<^verbatim>\<open>runAlloyFmt\<close>: the executor of the promise runs first.  In it \<^verbatim>\<open>cp.spawn\<close> may
  throw, which rejects the promise with that error and ends the executor, or writing to the
  child may throw, which is caught; each carries the message of the error.  The events of the
  child follow.
\<close>

datatype executor_failure = SpawnThrows jsstring | WriteThrows jsstring

definition runAlloyFmt :: "executor_failure option \<Rightarrow> child_event list \<Rightarrow> promise" where
  "runAlloyFmt thrown evs =
     (case thrown of
        Some (SpawnThrows m) \<Rightarrow> Rejected m
      | Some (WriteThrows m) \<Rightarrow>
          settled (foldl on_event
            \<lparr>stdout = [], stderr = [],
             settled = Rejected (js ''Failed to write to formatter: '' @ m)\<rparr> evs)
      | None \<Rightarrow> settled (foldl on_event \<lparr>stdout = [], stderr = [], settled = Pending\<rparr> evs))"

text \<open>\<^verbatim>\<open>/<stdin>:\d+:\d+:/\<close>\<close>

definition positions_re :: "item list" where
  "positions_re = map lit ''<stdin>:'' @
     [\<lparr>cls = Digit, quant = Plus, captured = False\<rparr>, lit CHR '':'',
      \<lparr>cls = Digit, quant = Plus, captured = False\<rparr>, lit CHR '':'']"

definition hasPositions :: "jsstring \<Rightarrow> bool" where
  "hasPositions msg = (rx_exec positions_re msg \<noteq> None)"

definition hint :: jsstring where
  "hint = js ''Ensure `alloy` is installed and on PATH, or set `river.alloyPath`.''"

text \<open>
  The two callbacks of \<^verbatim>\<open>provideDocumentFormattingEdits\<close>.  The first returns the edits
  or throws (\<open>Inl\<close> the message) when the editor refuses a line; the second takes the
  message of the rejection.
\<close>

definition then_callback :: "document \<Rightarrow> jsstring \<Rightarrow> jsstring + TextEdit list" where
  "then_callback d formatted =
     (if formatted = getText d then Inr []
      else case lineAt d (Num 0) of
             None \<Rightarrow> Inl (js ''Illegal value for `line`'')
           | Some firstLine \<Rightarrow>
               (case lineAt d (Num (lineCount d - 1)) of
                  None \<Rightarrow> Inl (js ''Illegal value for `line`'')
                | Some lastLine \<Rightarrow>
                    Inr [Replace (new_Range (range_start firstLine) (range_end lastLine))
                           formatted]))"

definition catch_callback :: "jsstring \<Rightarrow> extension \<Rightarrow> TextEdit list \<times> extension" where
  "catch_callback msg s =
     (if \<not> hasPositions msg
      then ([], s\<lparr>shown := shown s @ [js ''River format failed: '' @ msg @ js '' '' @ hint]\<rparr>)
      else ([], s))"

text \<open>
  \<^verbatim>\<open>provideDocumentFormattingEdits(document)\<close>, given how the promise of
  \<^verbatim>\<open>runAlloyFmt\<close> ends: the edits it resolves to (\<open>None\<close> while the promise is pending)
  and the state after it.
\<close>

definition provideDocumentFormattingEdits ::
    "document \<Rightarrow> promise \<Rightarrow> extension \<Rightarrow> TextEdit list option \<times> extension" where
  "provideDocumentFormattingEdits d p s =
     (case p of
        Pending \<Rightarrow> (None, s)
      | Fulfilled formatted \<Rightarrow>
          (case then_callback d formatted of
             Inr edits \<Rightarrow> (Some edits, s)
           | Inl msg \<Rightarrow> (case catch_callback msg s of (edits, s') \<Rightarrow> (Some edits, s')))
      | Rejected msg \<Rightarrow> (case catch_callback msg s of (edits, s') \<Rightarrow> (Some edits, s')))"

section \<open>Auxiliary notions\<close>

text \<open>
  The data events of a child, the text they carry, and the range from the start of the
  first line of a document to the end of its last line.
\<close>

fun is_data :: "child_event \<Rightarrow> bool" where
  "is_data (StdoutChunk c) = True"
| "is_data (StderrChunk c) = True"
| "is_data (ErrorEvent m) = False"
| "is_data (CloseEvent code) = False"

fun stdout_chunk :: "child_event \<Rightarrow> jsstring" where
  "stdout_chunk (StdoutChunk c) = c"
| "stdout_chunk e = []"

fun stderr_chunk :: "child_event \<Rightarrow> jsstring" where
  "stderr_chunk (StderrChunk c) = c"
| "stderr_chunk e = []"

definition stdout_text :: "child_event list \<Rightarrow> jsstring" where
  "stdout_text evs = concat (map stdout_chunk evs)"

definition stderr_text :: "child_event list \<Rightarrow> jsstring" where
  "stderr_text evs = concat (map stderr_chunk evs)"

definition full_range :: "document \<Rightarrow> Range" where
  "full_range d =
     \<lparr>range_start = \<lparr>pos_line = Num 0, character = Num 0\<rparr>,
      range_end = \<lparr>pos_line = Num (lineCount d - 1),
                   character = Num (int (length (last (doc_lines d))))\<rparr>\<rparr>"

text \<open>
  The error stream that the specification describes: optional white space, then records
  \<^verbatim>\<open><stdin>:L:C:msg\<close>, where \<open>L\<close> and \<open>C\<close> are decimal numerals and \<open>msg\<close> is free text (the
  white space around a record belongs to its text).  \<open>spec_error\<close> is the record that the
  specification expects for each: line \<open>L - 1\<close>, column \<open>C - 1\<close>, and the text with its white
  space normalised and trimmed.
\<close>

type_synonym stderr_record = "jsstring \<times> jsstring \<times> jsstring"

definition record_text :: "stderr_record \<Rightarrow> jsstring" where
  "record_text r = (case r of (L, C, msg) \<Rightarrow> js ''<stdin>:'' @ L @ js '':'' @ C @ js '':'' @ msg)"

definition stderr_of :: "jsstring \<Rightarrow> stderr_record list \<Rightarrow> jsstring" where
  "stderr_of ws recs = ws @ concat (map record_text recs)"

definition spec_error :: "stderr_record \<Rightarrow> PositionedError" where
  "spec_error r =
     (case r of (L, C, msg) \<Rightarrow>
        \<lparr>line = Num (decimal L - 1), col = Num (decimal C - 1), message = trim (replace_ws msg)\<rparr>)"

text \<open>
  The records on which the parser agrees with the specification: the numerals are digits
  with a value from 1 to \<open>2\<^sup>5\<^sup>3\<close>, up to where numbers count exactly, and the text has no
  \<^verbatim>\<open><\<close> and is not all white space.
\<close>

definition numeral_ok :: "jsstring \<Rightarrow> bool" where
  "numeral_ok ds \<longleftrightarrow> ds \<noteq> [] \<and> list_all isdigit ds \<and> 1 \<le> decimal ds \<and> decimal ds \<le> 2 ^ 53"

definition message_ok :: "jsstring \<Rightarrow> bool" where
  "message_ok msg \<longleftrightarrow> list_all (\<lambda>c. c \<noteq> 0x3C) msg \<and> list_ex (\<lambda>c. \<not> isspace c) msg"

definition record_ok :: "stderr_record \<Rightarrow> bool" where
  "record_ok r = (case r of (L, C, msg) \<Rightarrow> numeral_ok L \<and> numeral_ok C \<and> message_ok msg)"

text \<open>
  The position marker \<^verbatim>\<open><stdin>:digits:digits:\<close>, and the messages that contain one.
\<close>

definition position_marker :: "jsstring \<Rightarrow> jsstring \<Rightarrow> jsstring" where
  "position_marker L C = js ''<stdin>:'' @ L @ js '':'' @ C @ js '':''"

definition digits :: "jsstring \<Rightarrow> bool" where
  "digits ds \<longleftrightarrow> ds \<noteq> [] \<and> list_all isdigit ds"

definition has_marker :: "jsstring \<Rightarrow> bool" where
  "has_marker msg \<longleftrightarrow>
     (\<exists>pre L C post. digits L \<and> digits C \<and> msg = pre @ position_marker L C @ post)"

text \<open>Trimming at the end only.\<close>

definition rtrim :: "jsstring \<Rightarrow> jsstring" where
  "rtrim s = rev (dropWhile isspace (rev s))"

text \<open>
  A record after the normalisation of white space, a record trimmed at its end, and the
  record that the body of the loop builds for a record of the stream.
\<close>

definition normalised :: "stderr_record \<Rightarrow> stderr_record" where
  "normalised r = (case r of (L, C, m) \<Rightarrow> (L, C, replace_ws m))"

definition end_trimmed :: "stderr_record \<Rightarrow> stderr_record" where
  "end_trimmed r = (case r of (L, C, m) \<Rightarrow> (L, C, rtrim m))"

definition loop_error :: "stderr_record \<Rightarrow> PositionedError" where
  "loop_error r = (case r of (L, C, m) \<Rightarrow> to_error [L, C, dropWhile isspace m])"

text \<open>
  The timers are consistent when every pending timeout is the one that \<^verbatim>\<open>timers\<close> holds
  for its document, and no handle is pending twice.  A document is removed when it has no
  diagnostics, no entry in \<^verbatim>\<open>timers\<close> and no pending timeout.  An event touches a document
  when it schedules a validation of it or closes one of its running validations.
\<close>

definition timers_inv :: "extension \<Rightarrow> bool" where
  "timers_inv s \<longleftrightarrow>
     (\<forall>(h, d)\<in>set (timeouts s). timers s (uri d) = Some h \<and> h < next_timeout s) \<and>
     distinct (map fst (timeouts s))"

definition removed :: "extension \<Rightarrow> jsstring \<Rightarrow> bool" where
  "removed s u \<longleftrightarrow> collection s u = None \<and> timers s u = None \<and> pending_timeouts s u = []"

fun touches :: "jsstring \<Rightarrow> extension \<Rightarrow> event \<Rightarrow> bool" where
  "touches u s (Schedule d delay) = (uri d = u)"
| "touches u s (ChildClose pid code) = (pid \<in> set (in_flight s u))"
| "touches u s e = False"

section \<open>An example document\<close>

text \<open>
  A document of three lines, and the state after a first validation of it has published
  one diagnostic and a second validation has been started.
\<close>

definition example_doc :: document where
  "example_doc = \<lparr>uri = js ''file:///etc/agent.river'', languageId = js ''river'',
     doc_lines = [js ''logging {'', js ''  level = '', js ''}''], eol = [0x0A]\<rparr>"

definition published :: extension where
  "published = run [Schedule example_doc 50, TimeoutFires 0 False,
     StderrData 0 (js ''<stdin>:2:11: expected expression''), ChildClose 0 (Some 1),
     Schedule example_doc 250, TimeoutFires 1 False]"

definition example_diagnostic :: Diagnostic where
  "example_diagnostic =
     \<lparr>range = \<lparr>range_start = \<lparr>pos_line = Num 1, character = Num 10\<rparr>,
                range_end = \<lparr>pos_line = Num 1, character = Num 10\<rparr>\<rparr>,
      diag_message = js ''expected expression'', severity = Error,
      source = Some (js ''alloy fmt'')\<rparr>"

section \<open>Termination of the parser's loop\<close>

lemma record_capture_Some:
  "record_capture it acc r = Some (caps, rest) \<Longrightarrow> \<exists>caps'. r = Some (caps', rest)"
  by (auto simp: record_capture_def split: option.splits)

lemma rx_match_length:
  "rx_match p s = Some (caps, rest) \<Longrightarrow> length rest \<le> length s"
  "rx_repeat it its acc s = Some (caps, rest) \<Longrightarrow> length rest \<le> length s"
proof (induction p s and it its acc s arbitrary: caps rest and caps rest rule: rx_match_rx_repeat.induct)
  case (1 s)
  then show ?case by simp
next
  case (2 it its)
  then show ?case by (simp split: if_splits)
next
  case (3 it its c cs)
  then show ?case
    by (fastforce split: if_splits dest!: record_capture_Some)
next
  case (4 it its acc)
  then show ?case by (auto dest!: record_capture_Some)
next
  case (5 it its acc c cs)
  then show ?case
    by (fastforce split: if_splits option.splits dest!: record_capture_Some)
qed

lemma rx_match_re_shorter:
  "rx_match re s = Some (caps, rest) \<Longrightarrow> length rest < length s"
proof (cases s)
  case Nil
  assume "rx_match re s = Some (caps, rest)"
  with Nil show ?thesis by (simp add: re_def lit_def)
next
  case (Cons c cs)
  assume "rx_match re s = Some (caps, rest)"
  with Cons obtain caps' where "rx_match (tl re) cs = Some (caps', rest)"
    by (auto simp: re_def lit_def split: if_splits dest!: record_capture_Some)
  then have "length rest \<le> length cs" by (rule rx_match_length)
  with Cons show ?thesis by simp
qed

lemma rx_exec_re_shorter:
  "rx_exec re s = Some (caps, rest) \<Longrightarrow> length rest < length s"
proof (induction s)
  case Nil
  then show ?case by (auto dest: rx_match_re_shorter)
next
  case (Cons c cs)
  then show ?case
    by (fastforce split: option.splits dest: rx_match_re_shorter)
qed

termination exec_loop
  by (relation "measure length") (auto dest: rx_exec_re_shorter)

declare exec_loop.simps [simp del]

section \<open>The completion of a validation\<close>

lemma parse_example:
  "parseAlloyErrors (js ''<stdin>:2:11: expected expression'') =
     [\<lparr>line = Num 1, col = Num 10, message = js ''expected expression''\<rparr>]"
  by code_simp

lemma collection_collection_set:
  "collection (collection_set u ds s) = (collection s)(u \<mapsto> ds)"
  by (simp add: collection_set_def)

lemmas run_defs = run_def scheduleValidate_def timeout_fires_def validate_def clearTimeout_def
  activated_def validate_close_def closeTextDocument_def collection_set_def collection_delete_def Let_def

lemma example_doc_river: "languageId example_doc = js ''river''"
  by (simp add: example_doc_def)

lemma to_diagnostic_example:
  "to_diagnostic example_doc \<lparr>line = Num 1, col = Num 10, message = js ''expected expression''\<rparr>
     = Some example_diagnostic"
  by (simp add: to_diagnostic_def new_Position_def new_Range_def isBefore_def new_Diagnostic_def
      lineAt_def lineCount_def example_diagnostic_def Let_def example_doc_def js_def)

lemma published_state:
  "published =
     \<lparr>collection = [uri example_doc \<mapsto> [example_diagnostic]], timers = Map.empty, timeouts = [],
      next_timeout = 2, children = [(1, \<lparr>child_doc = example_doc, child_stderr = []\<rparr>)],
      next_child = 2, shown = []\<rparr>"
  by (simp add: published_def run_defs parse_example to_diagnostic_example example_doc_river)

lemma published_children:
  "map_of (children published) 1 = Some \<lparr>child_doc = example_doc, child_stderr = []\<rparr>"
  by (simp add: published_state)

lemma published_collection:
  "collection published (uri example_doc) = Some [example_diagnostic]"
  by (simp add: published_state)

text \<open>
  C2.  When a validation process of a document closes with exit code 0, the listener
  stores the empty sequence as the diagnostics of that document, whatever was published
  for it before.
\<close>

theorem exit_zero_clears_diagnostics:
  "map_of (children s) pid = Some c \<Longrightarrow>
   collection (step s (ChildClose pid (Some 0))) (uri (child_doc c)) = Some []"
  by (simp add: validate_close_def collection_collection_set)

theorem exit_zero_clears_diagnostics_witness:
  "map_of (children published) 1 = Some \<lparr>child_doc = example_doc, child_stderr = []\<rparr> \<and>
   collection published (uri example_doc) = Some [example_diagnostic] \<and>
   collection (step published (ChildClose 1 (Some 0))) (uri example_doc) = Some []"
  using exit_zero_clears_diagnostics [OF published_children] published_children
    published_collection
  by simp

lemma parse_empty_message:
  "parseAlloyErrors (js ''<stdin>:3:5: <nil> value'') =
     [\<lparr>line = Num 2, col = Num 4, message = []\<rparr>]"
  by code_simp

lemma published_children_list:
  "children published = [(1, \<lparr>child_doc = example_doc, child_stderr = []\<rparr>)]"
  by (simp add: published_state)

text \<open>
  C6, on the code.  A diagnostic is published for the document and a second validation of
  it is running.  Its standard error arrives in two chunks, \<^verbatim>\<open><stdin>:3:5: \<close> and
  \<^verbatim>\<open><nil> value\<close>, and it closes with exit code 1.  The parser yields one record for the
  text read so far, with an empty message, since the third group gives way before a \<^verbatim>\<open><\<close>.
  The editor refuses a diagnostic with an empty message: the listener ends before
  \<^verbatim>\<open>collection.set\<close>, and the diagnostic of the first validation stays.
\<close>

theorem empty_message_keeps_stale_diagnostics:
  "collection published (uri example_doc) = Some [example_diagnostic] \<and>
   in_flight published (uri example_doc) = [1] \<and>
   parseAlloyErrors (js ''<stdin>:3:5: '' @ js ''<nil> value'') =
     [\<lparr>line = Num 2, col = Num 4, message = []\<rparr>] \<and>
   to_diagnostic example_doc \<lparr>line = Num 2, col = Num 4, message = []\<rparr> = None \<and>
   collection (foldl step published
       [StderrData 1 (js ''<stdin>:3:5: ''), StderrData 1 (js ''<nil> value''),
        ChildClose 1 (Some 1)]) (uri example_doc) = Some [example_diagnostic]"
proof -
  have joined: "js ''<stdin>:3:5: '' @ js ''<nil> value'' = js ''<stdin>:3:5: <nil> value''"
    by (simp add: js_def)
  have none: "to_diagnostic example_doc \<lparr>line = Num 2, col = Num 4, message = []\<rparr> = None"
    by (simp add: to_diagnostic_def new_Position_def new_Diagnostic_def Let_def)
  have "foldl step published
       [StderrData 1 (js ''<stdin>:3:5: ''), StderrData 1 (js ''<nil> value''),
        ChildClose 1 (Some 1)] = published\<lparr>children := []\<rparr>"
    by (simp add: published_children_list validate_close_def joined parse_empty_message none)
  then show ?thesis
    using published_collection
    by (simp add: joined parse_empty_message none in_flight_def published_children_list)
qed

section \<open>The formatter and the format action\<close>

lemma foldl_on_event_data:
  "\<forall>e\<in>set evs. is_data e \<Longrightarrow>
   foldl on_event i evs =
     i\<lparr>stdout := stdout i @ stdout_text evs, stderr := stderr i @ stderr_text evs\<rparr>"
proof (induction evs arbitrary: i)
  case Nil
  then show ?case by (simp add: stdout_text_def stderr_text_def)
next
  case (Cons e evs)
  then show ?case
    by (cases e) (simp_all add: stdout_text_def stderr_text_def)
qed

lemma settled_on_event:
  "settled i \<noteq> Pending \<Longrightarrow> settled (on_event i e) = settled i"
  by (cases e) (simp_all add: resolve_def reject_def Let_def)

lemma settled_foldl_on_event:
  "settled i \<noteq> Pending \<Longrightarrow> settled (foldl on_event i evs) = settled i"
  by (induction evs arbitrary: i) (simp_all add: settled_on_event)

lemma runAlloyFmt_close:
  assumes "\<forall>e\<in>set evs. is_data e"
  shows "runAlloyFmt None (evs @ CloseEvent code # later) =
     (if code = Some 0 then Fulfilled (stdout_text evs)
      else Rejected (if stderr_text evs \<noteq> [] then stderr_text evs
                     else js ''alloy fmt exited with code '' @ code_to_string code))"
proof -
  let ?i = "on_event (foldl on_event \<lparr>stdout = [], stderr = [], settled = Pending\<rparr> evs) (CloseEvent code)"
  have "settled ?i = (if code = Some 0 then Fulfilled (stdout_text evs)
      else Rejected (if stderr_text evs \<noteq> [] then stderr_text evs
                     else js ''alloy fmt exited with code '' @ code_to_string code))"
    by (simp add: foldl_on_event_data [OF assms] resolve_def reject_def)
  moreover from this have "settled ?i \<noteq> Pending" by (simp split: if_splits)
  then have "settled (foldl on_event ?i later) = settled ?i"
    by (rule settled_foldl_on_event)
  ultimately show ?thesis by (simp add: runAlloyFmt_def)
qed

lemma runAlloyFmt_error:
  assumes "\<forall>e\<in>set evs. is_data e"
  shows "runAlloyFmt None (evs @ ErrorEvent m # later) =
     Rejected (js ''Failed to start formatter: '' @ m)"
proof -
  let ?i = "on_event (foldl on_event \<lparr>stdout = [], stderr = [], settled = Pending\<rparr> evs) (ErrorEvent m)"
  have "settled ?i = Rejected (js ''Failed to start formatter: '' @ m)"
    by (simp add: foldl_on_event_data [OF assms] reject_def)
  moreover from this have "settled ?i \<noteq> Pending" by simp
  then have "settled (foldl on_event ?i later) = settled ?i"
    by (rule settled_foldl_on_event)
  ultimately show ?thesis by (simp add: runAlloyFmt_def)
qed

lemma record_capture_plain [simp]: "\<not> captured it \<Longrightarrow> record_capture it acc r = r"
  by (cases r) (auto simp: record_capture_def)

lemma rx_match_once:
  "rx_match (\<lparr>cls = Lit a, quant = Once, captured = False\<rparr> # p) (c # cs) =
     (if c = a then rx_match p cs else None)"
  by simp

lemma rx_match_lit:
  "rx_match (lit a # p) (c # cs) =
     (if c = word_of_nat (of_char a) then rx_match p cs else None)"
  unfolding lit_def by (rule rx_match_once)

lemma rx_match_lit_Nil: "rx_match (lit a # p) [] = None"
  by (simp add: lit_def)


lemma rx_exec_positions_skip:
  "c \<noteq> 0x3C \<Longrightarrow> rx_exec positions_re (c # cs) = rx_exec positions_re cs"
  by (simp add: positions_re_def rx_match_lit del: rx_match.simps)

lemma hasPositions_skip:
  "\<forall>c\<in>set pre. c \<noteq> 0x3C \<Longrightarrow> hasPositions (pre @ m) = hasPositions m"
  by (induction pre) (simp_all add: hasPositions_def rx_exec_positions_skip del: rx_exec.simps)

lemma hasPositions_start_failure:
  "hasPositions (js ''Failed to start formatter: '' @ m) = hasPositions m"
  by (rule hasPositions_skip) (simp add: js_def)

lemma collection_provide:
  "collection (snd (provideDocumentFormattingEdits d p s)) = collection s"
  by (simp add: provideDocumentFormattingEdits_def catch_callback_def
      split: promise.splits sum.splits)

lemma lineAt_first:
  "doc_lines d \<noteq> [] \<Longrightarrow>
   lineAt d (Num 0) = Some \<lparr>range_start = \<lparr>pos_line = Num 0, character = Num 0\<rparr>,
     range_end = \<lparr>pos_line = Num 0, character = Num (int (length (hd (doc_lines d))))\<rparr>\<rparr>"
  by (cases "doc_lines d") (simp_all add: lineAt_def lineCount_def)

lemma lineAt_last:
  "doc_lines d \<noteq> [] \<Longrightarrow>
   lineAt d (Num (lineCount d - 1)) =
     Some \<lparr>range_start = \<lparr>pos_line = Num (lineCount d - 1), character = Num 0\<rparr>,
       range_end = \<lparr>pos_line = Num (lineCount d - 1),
                    character = Num (int (length (last (doc_lines d))))\<rparr>\<rparr>"
  by (simp add: lineAt_def lineCount_def last_conv_nth nat_diff_distrib')

lemma new_Range_full:
  assumes "doc_lines d \<noteq> []"
  shows "new_Range \<lparr>pos_line = Num 0, character = Num 0\<rparr>
     \<lparr>pos_line = Num (lineCount d - 1), character = Num (int (length (last (doc_lines d))))\<rparr>
     = full_range d"
proof -
  from assms have "1 \<le> lineCount d"
    by (cases "doc_lines d") (simp_all add: lineCount_def)
  then show ?thesis
    by (auto simp: new_Range_def isBefore_def full_range_def)
qed

lemma then_callback_edits:
  "doc_lines d \<noteq> [] \<Longrightarrow>
   then_callback d formatted =
     Inr (if formatted = getText d then [] else [Replace (full_range d) formatted])"
  by (simp add: then_callback_def lineAt_first lineAt_last new_Range_full)

text \<open>
  C7.  When the formatter closes with exit code 0, the format action resolves to no edit
  if the output equals the text of the document, and otherwise to one edit that replaces
  the range from the start of the first line to the end of the last line with the output.
  The document has at least one line, as every document of the editor has.
\<close>

theorem format_success_edits:
  assumes "\<forall>e\<in>set evs. is_data e" and "doc_lines d \<noteq> []"
  shows "provideDocumentFormattingEdits d
           (runAlloyFmt None (evs @ CloseEvent (Some 0) # later)) s =
         (Some (if stdout_text evs = getText d then []
                else [Replace (full_range d) (stdout_text evs)]), s)"
  using assms
  by (simp add: runAlloyFmt_close provideDocumentFormattingEdits_def then_callback_edits)

theorem format_success_edits_witness:
  "is_data (StdoutChunk (getText example_doc)) \<and> is_data (StdoutChunk (js ''logging {}'')) \<and>
   doc_lines example_doc \<noteq> [] \<and>
   provideDocumentFormattingEdits example_doc
     (runAlloyFmt None [StdoutChunk (getText example_doc), CloseEvent (Some 0)]) activated =
     (Some [], activated) \<and>
   provideDocumentFormattingEdits example_doc
     (runAlloyFmt None [StdoutChunk (js ''logging {}''), CloseEvent (Some 0)]) activated =
     (Some [Replace \<lparr>range_start = \<lparr>pos_line = Num 0, character = Num 0\<rparr>,
                     range_end = \<lparr>pos_line = Num 2, character = Num 1\<rparr>\<rparr> (js ''logging {}'')],
      activated)"
  using format_success_edits [where evs = "[StdoutChunk (getText example_doc)]" and d = example_doc
      and later = "[]" and s = activated]
    format_success_edits [where evs = "[StdoutChunk (js ''logging {}'')]" and d = example_doc
      and later = "[]" and s = activated]
  by (simp add: stdout_text_def full_range_def lineCount_def getText_def example_doc_def js_def)

section \<open>Timers and running validations\<close>

lemma timers_inv_activated: "timers_inv activated"
  by (simp add: timers_inv_def activated_def)

lemma distinct_map_filter_fst: "distinct (map fst xs) \<Longrightarrow> distinct (map fst (filter P xs))"
  by (induction xs) auto

lemma timers_inv_scheduleValidate: "timers_inv s \<Longrightarrow> timers_inv (scheduleValidate d delay s)"
  unfolding timers_inv_def scheduleValidate_def clearTimeout_def Let_def
  by (cases "timers s (uri d)") (fastforce simp: distinct_map_filter_fst)+

lemma timeouts_validate: "timeouts (validate d w s) = timeouts s"
  and timers_validate: "timers (validate d w s) = timers s"
  and next_timeout_validate: "next_timeout (validate d w s) = next_timeout s"
  by (simp_all add: validate_def collection_set_def Let_def)

lemma timers_inv_timeout_fires: "timers_inv s \<Longrightarrow> timers_inv (timeout_fires h w s)"
proof (cases "map_of (timeouts s) h")
  case None
  assume "timers_inv s"
  with None show ?thesis by (simp add: timeout_fires_def)
next
  case (Some d)
  assume inv: "timers_inv s"
  from Some have mem: "(h, d) \<in> set (timeouts s)" by (rule map_of_SomeD)
  with inv have key: "timers s (uri d) = Some h" by (auto simp: timers_inv_def)
  from inv key Some show ?thesis
    unfolding timers_inv_def timeout_fires_def clearTimeout_def Let_def
    by (fastforce simp: timeouts_validate timers_validate next_timeout_validate
        distinct_map_filter_fst)
qed

lemma timers_inv_closeTextDocument: "timers_inv s \<Longrightarrow> timers_inv (closeTextDocument d s)"
  unfolding timers_inv_def closeTextDocument_def clearTimeout_def collection_delete_def Let_def
  by (cases "timers s (uri d)") (fastforce simp: distinct_map_filter_fst)+

lemma timers_inv_validate_close: "timers_inv s \<Longrightarrow> timers_inv (validate_close d err code s)"
  by (simp add: timers_inv_def validate_close_def collection_set_def Let_def split: option.splits)

lemma timers_inv_step: "timers_inv s \<Longrightarrow> timers_inv (step s e)"
proof (cases e)
  case (ChildClose pid code)
  assume "timers_inv s"
  then have "timers_inv (s\<lparr>children := filter (\<lambda>(p, c). p \<noteq> pid) (children s)\<rparr>)"
    by (simp add: timers_inv_def)
  with \<open>timers_inv s\<close> ChildClose show ?thesis
    by (simp add: timers_inv_validate_close split: option.splits)
qed (simp_all add: timers_inv_scheduleValidate timers_inv_timeout_fires
      timers_inv_closeTextDocument, simp add: timers_inv_def)

lemma run_snoc: "run (evs @ [e]) = step (run evs) e"
  by (simp add: run_def)

lemma timers_inv_run: "timers_inv (run evs)"
  by (induction evs rule: rev_induct)
     (simp_all add: run_snoc timers_inv_step, simp add: run_def timers_inv_activated)

lemma length_le_one_const: "distinct xs \<Longrightarrow> \<forall>x\<in>set xs. x = a \<Longrightarrow> length xs \<le> Suc 0"
  by (cases xs; cases "tl xs") auto

lemma timers_inv_pending: "timers_inv s \<Longrightarrow> length (pending_timeouts s u) \<le> Suc 0"
proof -
  assume inv: "timers_inv s"
  have "distinct (pending_timeouts s u)"
    using inv by (simp add: pending_timeouts_def timers_inv_def distinct_map_filter_fst)
  moreover have "\<forall>x\<in>set (pending_timeouts s u). x = the (timers s u)"
    using inv by (auto simp: pending_timeouts_def timers_inv_def)
  ultimately show ?thesis by (rule length_le_one_const)
qed

lemma pending_scheduleValidate:
  "timers_inv s \<Longrightarrow>
   pending_timeouts (scheduleValidate d delay s) (uri d) = [next_timeout s]"
  unfolding timers_inv_def scheduleValidate_def clearTimeout_def Let_def pending_timeouts_def
  by (cases "timers s (uri d)") (auto simp: filter_empty_conv)

lemma pending_closeTextDocument:
  "timers_inv s \<Longrightarrow> pending_timeouts (closeTextDocument d s) (uri d) = []"
  unfolding timers_inv_def closeTextDocument_def clearTimeout_def Let_def pending_timeouts_def
    collection_delete_def
  by (cases "timers s (uri d)") (auto simp: filter_empty_conv)

lemma removed_step:
  assumes "removed s u" and "\<not> touches u s e"
  shows "removed (step s e) u"
proof (cases e)
  case (Schedule d delay)
  with assms show ?thesis
    by (cases "timers s (uri d)")
       (auto simp: removed_def scheduleValidate_def clearTimeout_def Let_def pending_timeouts_def
          filter_empty_conv)
next
  case (TimeoutFires h w)
  show ?thesis
  proof (cases "map_of (timeouts s) h")
    case None
    with assms TimeoutFires show ?thesis by (simp add: timeout_fires_def)
  next
    case (Some d)
    then have "(h, d) \<in> set (timeouts s)" by (rule map_of_SomeD)
    with assms have "uri d \<noteq> u"
      by (auto simp: removed_def pending_timeouts_def filter_empty_conv)
    with assms TimeoutFires Some show ?thesis
      by (auto simp: removed_def timeout_fires_def clearTimeout_def Let_def pending_timeouts_def
        validate_def collection_set_def filter_empty_conv)
  qed
next
  case (StderrData pid chunk)
  with assms show ?thesis by (simp add: removed_def pending_timeouts_def)
next
  case (ChildClose pid code)
  show ?thesis
  proof (cases "map_of (children s) pid")
    case None
    with assms ChildClose show ?thesis by simp
  next
    case (Some c)
    then have "(pid, c) \<in> set (children s)" by (rule map_of_SomeD)
    with assms ChildClose have "uri (child_doc c) \<noteq> u"
      by (force simp: in_flight_def)
    with assms ChildClose Some show ?thesis
      by (simp add: removed_def pending_timeouts_def validate_close_def collection_set_def Let_def
          split: option.splits)
  qed
next
  case (ChildError pid msg)
  with assms show ?thesis by simp
next
  case (CloseTextDocument d)
  with assms show ?thesis
    by (cases "timers s (uri d)")
       (auto simp: removed_def closeTextDocument_def clearTimeout_def Let_def pending_timeouts_def
          collection_delete_def filter_empty_conv)
qed

lemma children_closeTextDocument: "children (closeTextDocument d s) = children s"
  by (simp add: closeTextDocument_def clearTimeout_def collection_delete_def Let_def
      split: option.splits)

lemma removed_closeTextDocument: "timers_inv s \<Longrightarrow> removed (closeTextDocument d s) (uri d)"
  by (simp add: removed_def pending_closeTextDocument)
     (simp add: closeTextDocument_def clearTimeout_def collection_delete_def Let_def
      split: option.splits)

text \<open>
  C9, as the code has it.  In every state that the events can reach, a document has at most
  one pending timeout, and after a call of \<^verbatim>\<open>scheduleValidate\<close> for a document its only
  pending timeout is the new one: the call cancels the one that was pending.  The number
  of running validations of a document is not bounded, as the run below shows.
\<close>

theorem one_pending_timeout:
  "length (pending_timeouts (run evs) u) \<le> 1 \<and>
   pending_timeouts (scheduleValidate d delay (run evs)) (uri d) = [next_timeout (run evs)]"
  using timers_inv_pending [OF timers_inv_run] pending_scheduleValidate [OF timers_inv_run]
  by simp

theorem one_pending_timeout_witness:
  "pending_timeouts (run [Schedule example_doc 50]) (uri example_doc) = [0] \<and>
   pending_timeouts (scheduleValidate example_doc 250 (run [Schedule example_doc 50]))
     (uri example_doc) = [1] \<and>
   length (pending_timeouts (run [Schedule example_doc 50, Schedule example_doc 250])
     (uri example_doc)) \<le> 1"
  using one_pending_timeout [of "[Schedule example_doc 50]" "uri example_doc" example_doc 250]
    one_pending_timeout [of "[Schedule example_doc 50, Schedule example_doc 250]" "uri example_doc"]
  by (simp add: run_defs pending_timeouts_def)

text \<open>
  Against C9 as stated: two timeouts of one document fire one after the other, and two
  validation processes of that document run at once.
\<close>

theorem two_validations_in_flight:
  "in_flight (run [Schedule example_doc 250, TimeoutFires 0 False,
                   Schedule example_doc 250, TimeoutFires 1 False]) (uri example_doc) = [0, 1] \<and>
   \<not> length (in_flight (run [Schedule example_doc 250, TimeoutFires 0 False,
                   Schedule example_doc 250, TimeoutFires 1 False]) (uri example_doc)) \<le> 1"
  by (simp add: run_defs in_flight_def example_doc_river)

text \<open>
  C3, as the code has it.  Closing a document deletes its diagnostics, forgets its timer
  and leaves no timeout of it pending, and does not touch the running validations.  The
  document stays removed under every later event that neither schedules a validation of it
  nor closes a validation process of it.
\<close>

theorem close_removes_document:
  "removed (step (run evs) (CloseTextDocument d)) (uri d) \<and>
   children (step (run evs) (CloseTextDocument d)) = children (run evs) \<and>
   (removed s u \<longrightarrow> \<not> touches u s e \<longrightarrow> removed (step s e) u)"
  using removed_closeTextDocument [OF timers_inv_run] removed_step
  by (simp add: children_closeTextDocument)

theorem close_removes_document_witness:
  "removed (step (run [Schedule example_doc 50]) (CloseTextDocument example_doc)) (uri example_doc) \<and>
   \<not> touches (uri example_doc)
       (step (run [Schedule example_doc 50]) (CloseTextDocument example_doc)) (TimeoutFires 0 False) \<and>
   removed (run [Schedule example_doc 50, CloseTextDocument example_doc, TimeoutFires 0 False])
     (uri example_doc)"
  using close_removes_document [where evs = "[Schedule example_doc 50]" and d = example_doc
      and s = "step (run [Schedule example_doc 50]) (CloseTextDocument example_doc)"
      and u = "uri example_doc" and e = "TimeoutFires 0 False"]
  by (simp add: run_def)

text \<open>
  Against C3 as stated: a validation of the document is running when the document is
  closed; when the process closes afterwards, its listener publishes a diagnostic for the
  closed document.
\<close>

theorem late_result_after_close:
  "collection (run [Schedule example_doc 50, TimeoutFires 0 False,
                    CloseTextDocument example_doc]) (uri example_doc) = None \<and>
   collection (run [Schedule example_doc 50, TimeoutFires 0 False,
                    CloseTextDocument example_doc,
                    StderrData 0 (js ''<stdin>:2:11: expected expression''),
                    ChildClose 0 (Some 1)]) (uri example_doc) = Some [example_diagnostic]"
  by (simp add: run_defs parse_example to_diagnostic_example example_doc_river)

text \<open>
  C4, on the code.  A diagnostic is published for the document and a second validation of
  it is running.  The child's \<^verbatim>\<open>error\<close> event, which tells that the process could not be
  started, has no listener in \<^verbatim>\<open>validate\<close>: the state is the same after it, so the
  diagnostic stays and nothing is shown.
\<close>

theorem spawn_failure_keeps_diagnostics:
  "collection published (uri example_doc) = Some [example_diagnostic] \<and>
   in_flight published (uri example_doc) = [1] \<and>
   step published (ChildError 1 (js ''spawn alloy ENOENT'')) = published"
  using published_collection
  by (simp add: in_flight_def published_children_list)

section \<open>The parser\<close>

lemma isdigit_not_isspace: "isdigit c \<Longrightarrow> \<not> isspace c"
  by (auto simp: isdigit_def isspace_def word_le_def)

lemma isdigit_not_sign: "isdigit c \<Longrightarrow> c \<noteq> 0x2D \<and> c \<noteq> 0x2B"
  by (auto simp: isdigit_def)

lemma to_double_not_NaN: "to_double n \<noteq> NaN"
  by (simp add: to_double_def Let_def)

lemma negate_NaN: "negate x = NaN \<longleftrightarrow> x = NaN"
  by (cases x) simp_all

lemma minus_one_not_NaN: "x \<noteq> NaN \<Longrightarrow> minus_one x \<noteq> NaN"
  by (cases x) (simp_all add: to_double_not_NaN negate_NaN)

lemma math_max0_ge0: "x \<noteq> NaN \<Longrightarrow> num_ge0 (math_max0 x)"
  by (cases x) simp_all

lemma parseInt10_digit:
  "isdigit d \<Longrightarrow> parseInt10 (d # ds) = to_double (decimal (d # takeWhile isdigit ds))"
  by (simp add: parseInt10_def isdigit_not_isspace isdigit_not_sign)

lemma clamped_ge0:
  "isdigit d \<Longrightarrow> num_ge0 (math_max0 (minus_one (parseInt10 (d # ds))))"
  by (simp add: parseInt10_digit math_max0_ge0 minus_one_not_NaN to_double_not_NaN)

lemma rx_match_lit_SomeD:
  "rx_match (lit a # p) s = Some r \<Longrightarrow> \<exists>s'. rx_match p s' = Some r"
  by (cases s) (auto simp add: rx_match_lit rx_match_lit_Nil simp del: rx_match.simps split: if_splits)

lemma rx_match_lits_SomeD:
  "rx_match (map lit cs @ p) s = Some r \<Longrightarrow> \<exists>s'. rx_match p s' = Some r"
proof (induction cs arbitrary: s)
  case Nil
  then show ?case by auto
next
  case (Cons c cs)
  then show ?case
    using rx_match_lit_SomeD [of c "map lit cs @ p" s r] by auto
qed

lemma rx_repeat_SomeD:
  "rx_repeat it its acc s = Some (caps, rest) \<Longrightarrow>
   \<exists>run s' r. rx_match its s' = Some r \<and> record_capture it (acc @ run) (Some r) = Some (caps, rest)"
proof (induction s arbitrary: acc)
  case Nil
  then obtain r where "rx_match its [] = Some r" "record_capture it (acc @ []) (Some r) = Some (caps, rest)"
    by (cases "rx_match its []") (auto simp: record_capture_def)
  then show ?case by blast
next
  case (Cons c cs)
  show ?case
  proof (cases "cmatch (cls it) c \<and> rx_repeat it its (acc @ [c]) cs \<noteq> None")
    case True
    with Cons.prems have "rx_repeat it its (acc @ [c]) cs = Some (caps, rest)" by auto
    from Cons.IH [OF this] show ?thesis
      by (metis append.assoc)
  next
    case False
    with Cons.prems have "record_capture it acc (rx_match its (c # cs)) = Some (caps, rest)"
      by (auto split: if_splits option.splits)
    then obtain r where "rx_match its (c # cs) = Some r"
      "record_capture it (acc @ []) (Some r) = Some (caps, rest)"
      by (cases "rx_match its (c # cs)") (auto simp: record_capture_def)
    then show ?thesis by blast
  qed
qed

lemma rx_match_plus_group_SomeD:
  "rx_match (plus_group k # p) s = Some (caps, rest) \<Longrightarrow>
   \<exists>x run caps' s'. cmatch k x \<and> caps = (x # run) # caps' \<and> rx_match p s' = Some (caps', rest)"
proof (cases s)
  case Nil
  assume "rx_match (plus_group k # p) s = Some (caps, rest)"
  with Nil show ?thesis by (simp add: plus_group_def)
next
  case (Cons x xs)
  assume "rx_match (plus_group k # p) s = Some (caps, rest)"
  with Cons have x: "cmatch k x" and "rx_repeat (plus_group k) p [x] xs = Some (caps, rest)"
    by (simp_all add: plus_group_def split: if_splits)
  from rx_repeat_SomeD [OF this(2)] obtain run s' r where
    "rx_match p s' = Some r" "record_capture (plus_group k) ([x] @ run) (Some r) = Some (caps, rest)"
    by blast
  with x show ?thesis
    by (cases r) (auto simp: record_capture_def plus_group_def)
qed

lemma rx_match_star_SomeD:
  "rx_match (\<lparr>cls = k, quant = Star, captured = False\<rparr> # p) s = Some r \<Longrightarrow>
   \<exists>s'. rx_match p s' = Some r"
proof -
  assume "rx_match (\<lparr>cls = k, quant = Star, captured = False\<rparr> # p) s = Some r"
  then have "rx_repeat \<lparr>cls = k, quant = Star, captured = False\<rparr> p [] s = Some (fst r, snd r)"
    by (cases s) simp_all
  from rx_repeat_SomeD [OF this] show ?thesis by auto
qed

lemma rx_match_re_groups:
  assumes "rx_match re s = Some (m, rest)"
  shows "\<exists>d1 a d2 b c. m = [d1 # a, d2 # b, c] \<and> isdigit d1 \<and> isdigit d2"
proof -
  let ?star = "\<lparr>cls = Space, quant = Star, captured = False\<rparr>"
  from assms have "rx_match (map lit ''<stdin>:'' @
      [plus_group Digit, lit CHR '':'', plus_group Digit, lit CHR '':'', ?star,
       plus_group (NotLit 0x3C)]) s = Some (m, rest)"
    by (simp only: re_def)
  from rx_match_lits_SomeD [OF this] obtain s1 where
    "rx_match [plus_group Digit, lit CHR '':'', plus_group Digit, lit CHR '':'', ?star,
       plus_group (NotLit 0x3C)] s1 = Some (m, rest)" ..
  from rx_match_plus_group_SomeD [OF this] obtain d1 a m1 s2 where 1: "isdigit d1" "m = (d1 # a) # m1"
    and "rx_match [lit CHR '':'', plus_group Digit, lit CHR '':'', ?star,
       plus_group (NotLit 0x3C)] s2 = Some (m1, rest)"
    by auto
  from rx_match_lit_SomeD [OF this(3)] obtain s3 where
    "rx_match [plus_group Digit, lit CHR '':'', ?star, plus_group (NotLit 0x3C)] s3 = Some (m1, rest)" ..
  from rx_match_plus_group_SomeD [OF this] obtain d2 b m2 s4 where 2: "isdigit d2" "m1 = (d2 # b) # m2"
    and "rx_match [lit CHR '':'', ?star, plus_group (NotLit 0x3C)] s4 = Some (m2, rest)"
    by auto
  from rx_match_lit_SomeD [OF this(3)] obtain s5 where
    "rx_match [?star, plus_group (NotLit 0x3C)] s5 = Some (m2, rest)" ..
  from rx_match_star_SomeD [OF this] obtain s6 where
    "rx_match [plus_group (NotLit 0x3C)] s6 = Some (m2, rest)" ..
  from rx_match_plus_group_SomeD [OF this] obtain x c m3 s7 where
    "m2 = (x # c) # m3" "rx_match [] s7 = Some (m3, rest)"
    by auto
  with 1 2 show ?thesis by auto
qed

lemma rx_exec_SomeD: "rx_exec p s = Some r \<Longrightarrow> \<exists>s'. rx_match p s' = Some r"
  by (induction s) (auto split: option.splits)

lemma to_error_ge0:
  assumes "rx_exec re s = Some (m, rest)"
  shows "num_ge0 (line (to_error m)) \<and> num_ge0 (col (to_error m))"
proof -
  from rx_exec_SomeD [OF assms] obtain s' where "rx_match re s' = Some (m, rest)" ..
  from rx_match_re_groups [OF this] show ?thesis
    by (auto simp: to_error_def clamped_ge0)
qed

lemma exec_loop_ge0: "\<forall>e\<in>set (exec_loop s). num_ge0 (line e) \<and> num_ge0 (col e)"
proof (induction s rule: exec_loop.induct)
  case (1 s)
  show ?case
  proof (cases "rx_exec re s")
    case None
    then show ?thesis by (subst exec_loop.simps) simp
  next
    case (Some r)
    obtain m rest where r: "r = (m, rest)" by (cases r)
    with Some 1 to_error_ge0 [of s m rest] show ?thesis
      by (subst exec_loop.simps) simp
  qed
qed

lemma parse_zero_example:
  "parseAlloyErrors (js ''<stdin>:0:0: msg'') = [\<lparr>line = Num 0, col = Num 0, message = js ''msg''\<rparr>]"
  by code_simp

text \<open>
  C10.  For every input, every record that \<^verbatim>\<open>parseAlloyErrors\<close> returns has a line and a
  column that are at least 0: the two numbers match \<^verbatim>\<open>\d+\<close>, so \<^verbatim>\<open>parseInt\<close> gives a number
  and not \<open>NaN\<close>, and \<^verbatim>\<open>Math.max(0, n - 1)\<close> is then at least 0.  The record
  \<^verbatim>\<open><stdin>:0:0: msg\<close> comes out at line 0 and column 0.
\<close>

theorem parsed_positions_not_negative:
  "\<forall>e\<in>set (parseAlloyErrors s). num_ge0 (line e) \<and> num_ge0 (col e)"
  using exec_loop_ge0 by (simp add: parseAlloyErrors_def)

theorem parsed_positions_not_negative_witness:
  "parseAlloyErrors (js ''<stdin>:0:0: msg'') = [\<lparr>line = Num 0, col = Num 0, message = js ''msg''\<rparr>] \<and>
   num_ge0 (line (hd (parseAlloyErrors (js ''<stdin>:0:0: msg'')))) \<and>
   num_ge0 (col (hd (parseAlloyErrors (js ''<stdin>:0:0: msg''))))"
  using parsed_positions_not_negative [of "js ''<stdin>:0:0: msg''"] parse_zero_example
  by simp

section \<open>The parser on a stream of records\<close>

lemma isspace_SP: "isspace 0x20"
  by (simp add: isspace_def)

lemma replace_ws_nonspace_prefix:
  "list_all (\<lambda>c. \<not> isspace c) a \<Longrightarrow> replace_ws (a @ b) = a @ replace_ws b"
  by (induction a) simp_all

lemma dropWhile_append_boundary:
  "b = [] \<or> \<not> P (hd b) \<Longrightarrow> dropWhile P (a @ b) = dropWhile P a @ b"
  by (induction a) (auto simp: dropWhile_eq_self_iff)

lemma replace_ws_append:
  "b = [] \<or> \<not> isspace (hd b) \<Longrightarrow> replace_ws (a @ b) = replace_ws a @ replace_ws b"
  by (induction a rule: replace_ws.induct) (simp_all add: dropWhile_append_boundary)

lemma replace_ws_no_lt: "0x3C \<notin> set m \<Longrightarrow> 0x3C \<notin> set (replace_ws m)"
  by (induction m rule: replace_ws.induct) (auto dest: set_dropWhileD)

lemma nonspace_dropWhile:
  "(\<exists>c\<in>set (dropWhile P cs). \<not> P c) \<longleftrightarrow> (\<exists>c\<in>set cs. \<not> P c)"
  by (induction cs) auto

lemma replace_ws_nonspace:
  "\<exists>c\<in>set m. \<not> isspace c \<Longrightarrow> \<exists>c\<in>set (replace_ws m). \<not> isspace c"
  by (induction m rule: replace_ws.induct) (auto simp: nonspace_dropWhile)

lemma replace_ws_spaces:
  "list_all isspace ws \<Longrightarrow> replace_ws ws = (if ws = [] then [] else [0x20])"
  by (cases ws) (simp_all add: dropWhile_eq_Nil_conv [THEN iffD2] list_all_iff)

lemma rtrim_append:
  "\<exists>c\<in>set m. \<not> isspace c \<Longrightarrow> rtrim (y @ m) = y @ rtrim m"
  by (auto simp: rtrim_def dropWhile_append1)

lemma trim_rtrim_conv: "trim s = rtrim (dropWhile isspace s)"
  by (simp add: trim_def rtrim_def)

lemma rtrim_dropWhile_commute: "dropWhile isspace (rtrim m) = rtrim (dropWhile isspace m)"
proof (induction m)
  case Nil
  then show ?case by (simp add: rtrim_def)
next
  case (Cons x xs)
  then show ?case
    by (auto simp: rtrim_def dropWhile_append dropWhile_eq_Nil_conv dest: set_dropWhileD)
qed

lemma rtrim_idem: "rtrim (rtrim m) = rtrim m"
  by (simp add: rtrim_def)

lemma trim_dropWhile: "trim (dropWhile isspace m) = trim m"
  by (simp add: trim_def)

lemma trim_rtrim: "trim (rtrim m) = trim m"
  by (simp add: trim_rtrim_conv rtrim_dropWhile_commute rtrim_idem)


lemma rx_repeat_greedy:
  "list_all (cmatch (cls it)) xs \<Longrightarrow> s' = [] \<or> \<not> cmatch (cls it) (hd s') \<Longrightarrow>
   rx_match its s' = Some r \<Longrightarrow>
   rx_repeat it its acc (xs @ s') = record_capture it (acc @ xs) (Some r)"
proof (induction xs arbitrary: acc)
  case Nil
  then show ?case by (cases s') auto
next
  case (Cons x xs)
  from Cons.prems have "rx_repeat it its (acc @ [x]) (xs @ s') =
      record_capture it ((acc @ [x]) @ xs) (Some r)"
    by (intro Cons.IH) simp_all
  moreover have "record_capture it ((acc @ [x]) @ xs) (Some r) \<noteq> None"
    by (cases r) (simp add: record_capture_def)
  ultimately show ?case using Cons.prems by auto
qed

lemma rx_match_plus_group:
  assumes "xs \<noteq> []" and "list_all (cmatch k) xs" and "s' = [] \<or> \<not> cmatch k (hd s')"
    and "rx_match p s' = Some (caps, rest)"
  shows "rx_match (plus_group k # p) (xs @ s') = Some (xs # caps, rest)"
proof -
  from assms(1) obtain y ys where xs: "xs = y # ys" by (cases xs) auto
  with assms(2) have "cmatch k y" "list_all (cmatch (cls (plus_group k))) ys"
    by (simp_all add: plus_group_def)
  moreover from this(2) assms(3,4)
  have "rx_repeat (plus_group k) p [y] (ys @ s') =
      record_capture (plus_group k) ([y] @ ys) (Some (caps, rest))"
    by (intro rx_repeat_greedy) (simp_all add: plus_group_def)
  ultimately show ?thesis
    by (simp add: xs plus_group_def record_capture_def)
qed

lemma rx_match_star:
  assumes "list_all (cmatch k) xs" and "s' = [] \<or> \<not> cmatch k (hd s')"
    and "rx_match p s' = Some r"
  shows "rx_match (\<lparr>cls = k, quant = Star, captured = False\<rparr> # p) (xs @ s') = Some r"
proof -
  let ?it = "\<lparr>cls = k, quant = Star, captured = False\<rparr>"
  from assms have "rx_repeat ?it p [] (xs @ s') = record_capture ?it ([] @ xs) (Some r)"
    by (intro rx_repeat_greedy) simp_all
  then show ?thesis by (cases "xs @ s'") simp_all
qed

lemma rx_match_lits: "rx_match (map lit cs @ p) (js cs @ s) = rx_match p s"
  by (induction cs) (simp_all add: js_def rx_match_lit del: rx_match.simps)

lemma rx_match_colon: "rx_match (lit CHR '':'' # p) (js '':'' @ s) = rx_match p s"
  using rx_match_lits [of "'':''" p s] by simp

lemma colon_not_digit: "\<not> isdigit (hd (js '':'' @ s))"
  by (simp add: js_def isdigit_def)

lemma cmatch_Digit: "cmatch Digit = isdigit"
  by (rule ext) simp

lemma rx_match_re_record:
  assumes L: "L \<noteq> []" "list_all isdigit L" and C: "C \<noteq> []" "list_all isdigit C"
    and m: "list_all (\<lambda>c. c \<noteq> 0x3C) m" "list_ex (\<lambda>c. \<not> isspace c) m"
    and rest: "rest = [] \<or> hd rest = 0x3C"
  shows "rx_match re (record_text (L, C, m) @ rest) = Some ([L, C, dropWhile isspace m], rest)"
proof -
  let ?star = "\<lparr>cls = Space, quant = Star, captured = False\<rparr>"
  let ?b = "dropWhile isspace m"
  have split: "m = takeWhile isspace m @ ?b" by simp
  from m(2) have b: "?b \<noteq> []"
    by (auto simp: list_ex_iff dropWhile_eq_Nil_conv)
  then have hd_b: "\<not> isspace (hd ?b)" by (rule hd_dropWhile)
  from m(1) have b_lt: "list_all (cmatch (NotLit 0x3C)) ?b"
    by (auto simp: list_all_iff dest: set_dropWhileD)
  have "rx_match [] rest = Some ([], rest)" by simp
  with b b_lt rest have 4: "rx_match [plus_group (NotLit 0x3C)] (?b @ rest) = Some ([?b], rest)"
    by (intro rx_match_plus_group) auto
  have "rx_match [?star, plus_group (NotLit 0x3C)] (takeWhile isspace m @ (?b @ rest)) =
      Some ([?b], rest)"
    using b hd_b 4
    by (intro rx_match_star) (auto simp: list_all_iff dest: set_takeWhileD)
  then have 3: "rx_match [?star, plus_group (NotLit 0x3C)] (m @ rest) = Some ([?b], rest)"
    by (metis split append.assoc)
  then have 2: "rx_match [lit CHR '':'', ?star, plus_group (NotLit 0x3C)] (js '':'' @ m @ rest) =
      Some ([?b], rest)"
    by (simp only: rx_match_colon)
  have 1: "rx_match [plus_group Digit, lit CHR '':'', ?star, plus_group (NotLit 0x3C)]
      (C @ (js '':'' @ m @ rest)) = Some ([C, ?b], rest)"
    using C colon_not_digit 2 by (intro rx_match_plus_group) (simp_all add: cmatch_Digit)
  then have "rx_match [lit CHR '':'', plus_group Digit, lit CHR '':'', ?star, plus_group (NotLit 0x3C)]
      (js '':'' @ C @ js '':'' @ m @ rest) = Some ([C, ?b], rest)"
    by (simp only: rx_match_colon)
  with L colon_not_digit
  have "rx_match [plus_group Digit, lit CHR '':'', plus_group Digit, lit CHR '':'', ?star,
      plus_group (NotLit 0x3C)] (L @ (js '':'' @ C @ js '':'' @ m @ rest)) = Some ([L, C, ?b], rest)"
    by (intro rx_match_plus_group) (simp_all add: cmatch_Digit)
  then show ?thesis
    by (simp only: re_def record_text_def prod.case append.assoc rx_match_lits)
qed

lemma rx_exec_of_match: "rx_match p s = Some r \<Longrightarrow> rx_exec p s = Some r"
  by (cases s) simp_all

lemma exec_loop_Nil: "exec_loop [] = []"
  by (subst exec_loop.simps) (simp add: re_def rx_match_lit_Nil del: rx_match.simps)

lemma exec_loop_match:
  "rx_match re s = Some (m, rest) \<Longrightarrow> exec_loop s = to_error m # exec_loop rest"
  by (subst exec_loop.simps) (simp add: rx_exec_of_match)


lemma stderr_of_Nil: "stderr_of [] [] = []"
  and stderr_of_Cons: "stderr_of [] (r # rs) = record_text r @ stderr_of [] rs"
  and stderr_of_snoc: "stderr_of [] (rs @ [r]) = stderr_of [] rs @ record_text r"
  and stderr_of_ws: "stderr_of ws rs = ws @ stderr_of [] rs"
  by (simp_all add: stderr_of_def)

lemma lt_not_space: "\<not> isspace 0x3C"
  by (simp add: isspace_def)

lemma hd_record_text: "hd (record_text r @ s) = 0x3C"
  by (cases r) (simp add: record_text_def js_def)

lemma stderr_of_start: "stderr_of [] rs = [] \<or> hd (stderr_of [] rs) = 0x3C"
  by (cases rs) (simp_all add: stderr_of_Nil stderr_of_Cons hd_record_text)

lemma stderr_of_start_nonspace: "stderr_of [] rs = [] \<or> \<not> isspace (hd (stderr_of [] rs))"
  using stderr_of_start [of rs] lt_not_space by auto

lemma literals_nonspace:
  "list_all (\<lambda>c. \<not> isspace c) (js ''<stdin>:'')" "list_all (\<lambda>c. \<not> isspace c) (js '':'')"
  by (simp_all add: js_def isspace_def)

lemma digits_nonspace: "list_all isdigit ds \<Longrightarrow> list_all (\<lambda>c. \<not> isspace c) ds"
  by (auto simp: list_all_iff dest: isdigit_not_isspace)

lemma marker_nonspace:
  "list_all isdigit L \<Longrightarrow> list_all isdigit C \<Longrightarrow>
   list_all (\<lambda>c. \<not> isspace c) (js ''<stdin>:'' @ L @ js '':'' @ C @ js '':'')"
  by (simp add: literals_nonspace digits_nonspace)

lemma record_text_marker:
  "record_text (L, C, m) = (js ''<stdin>:'' @ L @ js '':'' @ C @ js '':'') @ m"
  by (simp add: record_text_def)

lemma message_ok_nonspace: "message_ok m \<Longrightarrow> \<exists>c\<in>set m. \<not> isspace c"
  by (simp add: message_ok_def list_ex_iff)

lemma message_ok_replace_ws: "message_ok m \<Longrightarrow> message_ok (replace_ws m)"
  using replace_ws_no_lt [of m] replace_ws_nonspace [of m]
  by (auto simp: message_ok_def list_all_iff list_ex_iff)

lemma message_ok_rtrim:
  assumes "message_ok m"
  shows "message_ok (rtrim m)"
proof -
  have "set (rtrim m) \<subseteq> set m"
    by (auto simp: rtrim_def dest: set_dropWhileD)
  moreover have "\<exists>c\<in>set (rtrim m). \<not> isspace c"
    using assms nonspace_dropWhile [of isspace "rev m"]
    by (simp add: rtrim_def message_ok_def list_ex_iff)
  ultimately show ?thesis
    using assms by (auto simp: message_ok_def list_all_iff list_ex_iff)
qed

lemma record_ok_normalised: "record_ok r \<Longrightarrow> record_ok (normalised r)"
  by (cases r) (simp add: record_ok_def normalised_def message_ok_replace_ws)

lemma record_ok_end_trimmed: "record_ok r \<Longrightarrow> record_ok (end_trimmed r)"
  by (cases r) (simp add: record_ok_def end_trimmed_def message_ok_rtrim)

lemma replace_ws_record:
  assumes "record_ok r" and "s = [] \<or> \<not> isspace (hd s)"
  shows "replace_ws (record_text r @ s) = record_text (normalised r) @ replace_ws s"
proof -
  obtain L C m where r: "r = (L, C, m)" by (cases r)
  let ?marker = "js ''<stdin>:'' @ L @ js '':'' @ C @ js '':''"
  from assms(1) have "list_all (\<lambda>c. \<not> isspace c) ?marker"
    unfolding r record_ok_def numeral_ok_def by (intro marker_nonspace) simp_all
  then have "replace_ws (?marker @ (m @ s)) = ?marker @ replace_ws (m @ s)"
    by (rule replace_ws_nonspace_prefix)
  also have "replace_ws (m @ s) = replace_ws m @ replace_ws s"
    using assms(2) by (rule replace_ws_append)
  finally show ?thesis
    by (simp add: r record_text_def normalised_def)
qed

lemma replace_ws_stderr_of:
  "list_all record_ok rs \<Longrightarrow> replace_ws (stderr_of [] rs) = stderr_of [] (map normalised rs)"
proof (induction rs)
  case Nil
  then show ?case by (simp add: stderr_of_Nil)
next
  case (Cons r rs)
  then show ?case
    using stderr_of_start_nonspace [of rs]
    by (simp add: stderr_of_Cons replace_ws_record)
qed

lemma rtrim_stderr_of:
  assumes "record_ok r"
  shows "rtrim (stderr_of [] (rs @ [r])) = stderr_of [] (rs @ [end_trimmed r])"
proof -
  obtain L C m where r: "r = (L, C, m)" by (cases r)
  let ?marker = "js ''<stdin>:'' @ L @ js '':'' @ C @ js '':''"
  from assms have "\<exists>c\<in>set m. \<not> isspace c"
    by (simp add: r record_ok_def message_ok_nonspace)
  then have "rtrim ((stderr_of [] rs @ ?marker) @ m) = (stderr_of [] rs @ ?marker) @ rtrim m"
    by (rule rtrim_append)
  then show ?thesis
    by (simp add: r stderr_of_snoc record_text_def end_trimmed_def)
qed

lemma numeral_ok_clamped:
  assumes "numeral_ok ds"
  shows "math_max0 (minus_one (parseInt10 ds)) = Num (decimal ds - 1)"
proof -
  from assms obtain d ds' where ds: "ds = d # ds'" "isdigit d" "list_all isdigit ds'"
    by (cases ds) (auto simp: numeral_ok_def)
  then have "parseInt10 ds = to_double (decimal ds)"
    by (simp add: parseInt10_digit takeWhile_eq_all_conv [THEN iffD2] list_all_iff)
  with assms show ?thesis
    by (simp add: numeral_ok_def to_double_def)
qed

lemma loop_error_ok:
  "record_ok r \<Longrightarrow>
   loop_error r = (case r of (L, C, m) \<Rightarrow>
     \<lparr>line = Num (decimal L - 1), col = Num (decimal C - 1), message = trim m\<rparr>)"
  by (cases r) (simp add: loop_error_def record_ok_def to_error_def numeral_ok_clamped trim_dropWhile)

lemma loop_error_normalised: "record_ok r \<Longrightarrow> loop_error (normalised r) = spec_error r"
  using loop_error_ok [OF record_ok_normalised, of r]
  by (cases r) (simp add: normalised_def spec_error_def)

lemma loop_error_end_trimmed: "record_ok r \<Longrightarrow> loop_error (end_trimmed r) = loop_error r"
  using loop_error_ok [OF record_ok_end_trimmed, of r] loop_error_ok [of r]
  by (cases r) (simp add: end_trimmed_def trim_rtrim)

lemma exec_loop_stderr_of:
  "list_all record_ok rs \<Longrightarrow> exec_loop (stderr_of [] rs) = map loop_error rs"
proof (induction rs)
  case Nil
  then show ?case by (simp add: stderr_of_Nil exec_loop_Nil)
next
  case (Cons r rs)
  obtain L C m where r: "r = (L, C, m)" by (cases r)
  from Cons.prems have "rx_match re (record_text (L, C, m) @ stderr_of [] rs) =
      Some ([L, C, dropWhile isspace m], stderr_of [] rs)"
    unfolding r
    by (intro rx_match_re_record stderr_of_start)
       (simp_all add: record_ok_def numeral_ok_def message_ok_def)
  then have "exec_loop (stderr_of [] (r # rs)) =
      to_error [L, C, dropWhile isspace m] # exec_loop (stderr_of [] rs)"
    by (simp add: r stderr_of_Cons exec_loop_match)
  with Cons show ?case by (simp add: r loop_error_def)
qed

lemma parseAlloyErrors_loop: "parseAlloyErrors s = exec_loop (trim (replace_ws s))"
  by (simp add: parseAlloyErrors_def trim_def exec_loop_Nil)

lemma normalise_stderr_of:
  assumes "list_all isspace ws" and "list_all record_ok rs"
  shows "trim (replace_ws (stderr_of ws rs)) = rtrim (stderr_of [] (map normalised rs))"
proof -
  let ?B = "stderr_of [] (map normalised rs)"
  have "replace_ws (stderr_of ws rs) = replace_ws ws @ replace_ws (stderr_of [] rs)"
    using stderr_of_start_nonspace [of rs]
    by (subst stderr_of_ws) (rule replace_ws_append)
  also have "\<dots> = replace_ws ws @ ?B"
    using assms(2) by (simp add: replace_ws_stderr_of)
  finally have "dropWhile isspace (replace_ws (stderr_of ws rs)) = ?B"
    using assms(1) stderr_of_start_nonspace [of "map normalised rs"]
    by (auto simp: replace_ws_spaces isspace_SP dropWhile_eq_self_iff)
  then show ?thesis by (simp add: trim_rtrim_conv)
qed

text \<open>
  C1, as the code has it.  Let the error stream be white space followed by records
  \<^verbatim>\<open><stdin>:L:C:msg\<close>, where \<open>L\<close> and \<open>C\<close> are decimal numerals with a value from 1 to \<open>2\<^sup>5\<^sup>3\<close>
  and \<open>msg\<close> has no \<^verbatim>\<open><\<close> and is not all white space (white space and line breaks between
  records belong to \<open>msg\<close>).  Then \<^verbatim>\<open>parseAlloyErrors\<close> returns one record for each, in
  order, with line \<open>L - 1\<close>, column \<open>C - 1\<close>, and as message \<open>msg\<close> with each run of white
  space made one space and the white space at both ends removed.  The scenario of the
  specification is the first instance below.
\<close>

theorem parse_records:
  assumes "list_all isspace ws" and "list_all record_ok recs"
  shows "parseAlloyErrors (stderr_of ws recs) = map spec_error recs"
proof (cases recs rule: rev_cases)
  case Nil
  with assms show ?thesis
    by (simp add: parseAlloyErrors_loop normalise_stderr_of stderr_of_Nil rtrim_def exec_loop_Nil)
next
  case (snoc rs r)
  with assms(2) have ok: "list_all record_ok rs" "record_ok r" by simp_all
  then have ok': "list_all record_ok (map normalised rs)" "record_ok (normalised r)"
    by (simp_all add: list_all_iff record_ok_normalised)
  have "trim (replace_ws (stderr_of ws recs)) =
      rtrim (stderr_of [] (map normalised rs @ [normalised r]))"
    using assms by (simp add: normalise_stderr_of snoc)
  also have "\<dots> = stderr_of [] (map normalised rs @ [end_trimmed (normalised r)])"
    using ok'(2) by (rule rtrim_stderr_of)
  finally have "parseAlloyErrors (stderr_of ws recs) =
      map loop_error (map normalised rs @ [end_trimmed (normalised r)])"
    using ok' by (simp add: parseAlloyErrors_loop exec_loop_stderr_of record_ok_end_trimmed)
  also have "\<dots> = map spec_error rs @ [spec_error r]"
    using ok ok' by (simp add: loop_error_end_trimmed loop_error_normalised list_all_iff)
  finally show ?thesis by (simp add: snoc)
qed


lemma scenario_record_ok:
  "record_ok (js ''360'', js ''37'', js '' missing ',' in expression list'')"
  by code_simp

lemma scenario_stderr:
  "stderr_of [] [(js ''360'', js ''37'', js '' missing ',' in expression list'')] =
     js ''<stdin>:360:37: missing ',' in expression list''"
  by (simp add: stderr_of_def record_text_def js_def)

lemma scenario_spec_error:
  "spec_error (js ''360'', js ''37'', js '' missing ',' in expression list'') =
     \<lparr>line = Num 359, col = Num 36, message = js ''missing ',' in expression list''\<rparr>"
  by code_simp

lemma two_records_ok:
  "list_all isspace [0x0A, 0x20] \<and>
   list_all record_ok [(js ''2'', js ''11'', js '' expected  expression'' @ [0x0A]),
                       (js ''007'', js ''1'', [0x09] @ js ''illegal character '' @ [0x0D, 0x0A])]"
  by code_simp

lemma two_records_spec_error:
  "spec_error (js ''2'', js ''11'', js '' expected  expression'' @ [0x0A]) =
     \<lparr>line = Num 1, col = Num 10, message = js ''expected expression''\<rparr>"
  "spec_error (js ''007'', js ''1'', [0x09] @ js ''illegal character '' @ [0x0D, 0x0A]) =
     \<lparr>line = Num 6, col = Num 0, message = js ''illegal character''\<rparr>"
  by code_simp+

theorem parse_records_witness:
  "list_all isspace [] \<and>
   list_all record_ok [(js ''360'', js ''37'', js '' missing ',' in expression list'')] \<and>
   parseAlloyErrors (js ''<stdin>:360:37: missing ',' in expression list'') =
     [\<lparr>line = Num 359, col = Num 36, message = js ''missing ',' in expression list''\<rparr>] \<and>
   list_all isspace [0x0A, 0x20] \<and>
   list_all record_ok [(js ''2'', js ''11'', js '' expected  expression'' @ [0x0A]),
                       (js ''007'', js ''1'', [0x09] @ js ''illegal character '' @ [0x0D, 0x0A])] \<and>
   parseAlloyErrors (stderr_of [0x0A, 0x20]
       [(js ''2'', js ''11'', js '' expected  expression'' @ [0x0A]),
        (js ''007'', js ''1'', [0x09] @ js ''illegal character '' @ [0x0D, 0x0A])]) =
     [\<lparr>line = Num 1, col = Num 10, message = js ''expected expression''\<rparr>,
      \<lparr>line = Num 6, col = Num 0, message = js ''illegal character''\<rparr>]"
  using parse_records [of "[]" "[(js ''360'', js ''37'', js '' missing ',' in expression list'')]"]
    parse_records [of "[0x0A, 0x20]"
      "[(js ''2'', js ''11'', js '' expected  expression'' @ [0x0A]),
        (js ''007'', js ''1'', [0x09] @ js ''illegal character '' @ [0x0D, 0x0A])]"]
    scenario_record_ok two_records_ok two_records_spec_error
  by (simp add: scenario_stderr scenario_spec_error)

text \<open>
  Against C1 as stated, at two streams of one record each.  The text of the first holds a
  \<^verbatim>\<open><\<close> that starts no record: the class \<^verbatim>\<open>[^<]\<close> stops there and the message that comes
  out is cut.  The line of the second is beyond \<open>2\<^sup>5\<^sup>3\<close>: \<^verbatim>\<open>parseInt\<close> gives it exactly,
  but the number one less is no binary64 value and is rounded, so the line that comes out is
  two less.
\<close>

theorem records_not_recovered:
  "stderr_of [] [(js ''3'', js ''5'', js '' expected < here'')] = js ''<stdin>:3:5: expected < here'' \<and>
   parseAlloyErrors (js ''<stdin>:3:5: expected < here'') =
     [\<lparr>line = Num 2, col = Num 4, message = js ''expected''\<rparr>] \<and>
   map spec_error [(js ''3'', js ''5'', js '' expected < here'')] =
     [\<lparr>line = Num 2, col = Num 4, message = js ''expected < here''\<rparr>] \<and>
   stderr_of [] [(js ''9007199254740994'', js ''1'', js '' a'')] =
     js ''<stdin>:9007199254740994:1: a'' \<and>
   parseAlloyErrors (js ''<stdin>:9007199254740994:1: a'') =
     [\<lparr>line = Num 9007199254740992, col = Num 0, message = js ''a''\<rparr>] \<and>
   map spec_error [(js ''9007199254740994'', js ''1'', js '' a'')] =
     [\<lparr>line = Num 9007199254740993, col = Num 0, message = js ''a''\<rparr>]"
  by code_simp

text \<open>
  The text must not be empty either: a last record with no text is not matched.
\<close>

lemma last_record_without_text:
  "parseAlloyErrors (js ''<stdin>:5:3:'') = []"
  by code_simp

section \<open>Diagnostics of parsed records\<close>

text \<open>
  Apart from a record with an empty message, the listener of \<^verbatim>\<open>close\<close> stores what it
  builds: a record of the parser with a message gives a diagnostic with that message, of
  severity \<open>Error\<close>, whose range has the position of the record at one end.
\<close>

lemma num_ge0_not_less: "num_ge0 x \<Longrightarrow> \<not> num_less x (Num 0)"
  by (cases x) simp_all

lemma to_diagnostic_parsed:
  assumes "e \<in> set (parseAlloyErrors x)" and "message e \<noteq> []"
  shows "\<exists>dg. to_diagnostic d e = Some dg \<and> diag_message dg = message e \<and> severity dg = Error \<and>
    (range_start (range dg) = \<lparr>pos_line = line e, character = col e\<rparr> \<or>
     range_end (range dg) = \<lparr>pos_line = line e, character = col e\<rparr>)"
proof -
  from assms(1) exec_loop_ge0 have "num_ge0 (line e)" "num_ge0 (col e)"
    by (auto simp: parseAlloyErrors_def split: if_splits)
  then have "new_Position (line e) (col e) = Some \<lparr>pos_line = line e, character = col e\<rparr>"
    by (simp add: new_Position_def num_ge0_not_less)
  with assms(2) show ?thesis
    by (simp add: to_diagnostic_def new_Diagnostic_def new_Range_def Let_def)
qed

lemma nonzero_exit_stores:
  assumes "map_of (children s) pid = Some c" and "code \<noteq> Some 0"
    and "those (map (to_diagnostic (child_doc c)) (parseAlloyErrors (child_stderr c))) = Some ds"
  shows "collection (step s (ChildClose pid code)) (uri (child_doc c)) = Some ds"
  using assms
  by (auto simp: validate_close_def collection_collection_set Let_def)

section \<open>The position marker\<close>

lemma rx_match_plus:
  assumes "quant it = Plus" and "xs \<noteq> []" and "list_all (cmatch (cls it)) xs"
    and "s' = [] \<or> \<not> cmatch (cls it) (hd s')" and "rx_match p s' = Some r"
  shows "rx_match (it # p) (xs @ s') = record_capture it xs (Some r)"
proof -
  from assms(2) obtain y ys where xs: "xs = y # ys" by (cases xs) auto
  with assms(3) have y: "cmatch (cls it) y" and "list_all (cmatch (cls it)) ys" by simp_all
  from this(2) assms(4,5)
  have "rx_repeat it p [y] (ys @ s') = record_capture it ([y] @ ys) (Some r)"
    by (rule rx_repeat_greedy)
  with y assms(1) show ?thesis by (simp add: xs)
qed

lemma rx_match_positions_marker:
  assumes "digits L" and "digits C"
  shows "rx_match positions_re (position_marker L C @ post) = Some ([], post)"
proof -
  let ?plus = "\<lparr>cls = Digit, quant = Plus, captured = False\<rparr>"
  have "rx_match [lit CHR '':''] (js '':'' @ post) = Some ([], post)"
    by (simp only: rx_match_colon rx_match.simps)
  with assms(2) colon_not_digit
  have "rx_match [?plus, lit CHR '':''] (C @ (js '':'' @ post)) =
      record_capture ?plus C (Some ([], post))"
    by (intro rx_match_plus) (simp_all add: digits_def cmatch_Digit)
  then have "rx_match [lit CHR '':'', ?plus, lit CHR '':''] (js '':'' @ C @ js '':'' @ post) =
      Some ([], post)"
    by (simp add: rx_match_colon del: rx_match.simps)
  with assms(1) colon_not_digit
  have "rx_match [?plus, lit CHR '':'', ?plus, lit CHR '':'']
      (L @ (js '':'' @ C @ js '':'' @ post)) = record_capture ?plus L (Some ([], post))"
    by (intro rx_match_plus) (simp_all add: digits_def cmatch_Digit)
  then have "rx_match [?plus, lit CHR '':'', ?plus, lit CHR '':'']
      (L @ (js '':'' @ C @ js '':'' @ post)) = Some ([], post)"
    by (simp del: rx_match.simps)
  then show ?thesis
    by (simp only: positions_re_def position_marker_def append.assoc rx_match_lits)
qed

lemma rx_exec_append:
  "rx_match p x = Some r \<Longrightarrow> rx_exec p (pre @ x) \<noteq> None"
  by (induction pre) (auto simp: rx_exec_of_match split: option.splits)

lemma rx_exec_suffix:
  "rx_exec p s = Some r \<Longrightarrow> \<exists>pre x. s = pre @ x \<and> rx_match p x = Some r"
proof (induction s)
  case Nil
  then show ?case by auto
next
  case (Cons c cs)
  show ?case
  proof (cases "rx_match p (c # cs)")
    case None
    with Cons.prems have "rx_exec p cs = Some r" by simp
    from Cons.IH [OF this] obtain pre x where "cs = pre @ x" "rx_match p x = Some r" by blast
    then have "c # cs = (c # pre) @ x \<and> rx_match p x = Some r" by simp
    then show ?thesis by blast
  next
    case (Some r')
    with Cons.prems have "c # cs = [] @ (c # cs) \<and> rx_match p (c # cs) = Some r" by simp
    then show ?thesis by blast
  qed
qed

lemma rx_match_lit_input:
  "rx_match (lit a # p) s = Some r \<Longrightarrow> \<exists>s'. s = js [a] @ s' \<and> rx_match p s' = Some r"
  by (cases s) (auto simp add: rx_match_lit rx_match_lit_Nil js_def simp del: rx_match.simps
      split: if_splits)

lemma rx_match_lits_input:
  "rx_match (map lit cs @ p) s = Some r \<Longrightarrow> \<exists>s'. s = js cs @ s' \<and> rx_match p s' = Some r"
proof (induction cs arbitrary: s)
  case Nil
  then show ?case by (simp add: js_def)
next
  case (Cons c cs)
  from Cons.prems have "rx_match (lit c # (map lit cs @ p)) s = Some r" by simp
  from rx_match_lit_input [OF this] obtain s1 where
    s1: "s = js [c] @ s1" "rx_match (map lit cs @ p) s1 = Some r" by blast
  from Cons.IH [OF s1(2)] obtain s2 where "s1 = js cs @ s2" "rx_match p s2 = Some r" by blast
  with s1(1) have "s = js (c # cs) @ s2 \<and> rx_match p s2 = Some r" by (simp add: js_def)
  then show ?case by blast
qed

lemma rx_repeat_input:
  "rx_repeat it its acc s = Some res \<Longrightarrow>
   \<exists>run s' r. s = run @ s' \<and> list_all (cmatch (cls it)) run \<and> rx_match its s' = Some r"
proof (induction s arbitrary: acc res)
  case Nil
  then obtain r where r: "rx_match its [] = Some r"
    by (cases "rx_match its []") (auto simp: record_capture_def)
  show ?case
    by (rule exI [of _ "[]"], rule exI [of _ "[]"], rule exI [of _ r]) (simp add: r)
next
  case (Cons c cs)
  show ?case
  proof (cases "cmatch (cls it) c \<and> rx_repeat it its (acc @ [c]) cs \<noteq> None")
    case True
    then obtain res' where "rx_repeat it its (acc @ [c]) cs = Some res'" by auto
    from Cons.IH [OF this] obtain run s' r where
      *: "cs = run @ s'" "list_all (cmatch (cls it)) run" "rx_match its s' = Some r" by blast
    show ?thesis
      by (rule exI [of _ "c # run"], rule exI [of _ s'], rule exI [of _ r])
         (use True * in simp)
  next
    case False
    with Cons.prems have "record_capture it acc (rx_match its (c # cs)) = Some res"
      by (auto split: if_splits option.splits)
    then obtain r where r: "rx_match its (c # cs) = Some r"
      by (cases "rx_match its (c # cs)") (auto simp: record_capture_def)
    show ?thesis
      by (rule exI [of _ "[]"], rule exI [of _ "c # cs"], rule exI [of _ r]) (simp add: r)
  qed
qed

lemma rx_match_plus_input:
  assumes "quant it = Plus" and "rx_match (it # p) s = Some res"
  shows "\<exists>xs s' r. s = xs @ s' \<and> xs \<noteq> [] \<and> list_all (cmatch (cls it)) xs \<and> rx_match p s' = Some r"
proof (cases s)
  case Nil
  with assms show ?thesis by simp
next
  case (Cons c cs)
  with assms have c: "cmatch (cls it) c" and "rx_repeat it p [c] cs = Some res"
    by (simp_all split: if_splits)
  from rx_repeat_input [OF this(2)] obtain run s' r where
    "cs = run @ s'" "list_all (cmatch (cls it)) run" "rx_match p s' = Some r" by blast
  with c Cons have "s = (c # run) @ s' \<and> c # run \<noteq> [] \<and> list_all (cmatch (cls it)) (c # run) \<and>
      rx_match p s' = Some r" by simp
  then show ?thesis by blast
qed

lemma rx_match_positions_input:
  assumes "rx_match positions_re x = Some r"
  shows "\<exists>L C post. digits L \<and> digits C \<and> x = position_marker L C @ post"
proof -
  let ?plus = "\<lparr>cls = Digit, quant = Plus, captured = False\<rparr>"
  from assms have "rx_match (map lit ''<stdin>:'' @ [?plus, lit CHR '':'', ?plus, lit CHR '':'']) x =
      Some r"
    by (simp only: positions_re_def)
  from rx_match_lits_input [OF this] obtain x1 where
    x: "x = js ''<stdin>:'' @ x1"
    and "rx_match [?plus, lit CHR '':'', ?plus, lit CHR '':''] x1 = Some r" by blast
  from rx_match_plus_input [OF _ this(2)] obtain L x2 r2 where
    L: "x1 = L @ x2" "L \<noteq> []" "list_all isdigit L"
    and "rx_match [lit CHR '':'', ?plus, lit CHR '':''] x2 = Some r2"
    by (auto simp: cmatch_Digit)
  from rx_match_lit_input [OF this(4)] obtain x3 where
    x2: "x2 = js '':'' @ x3" and "rx_match [?plus, lit CHR '':''] x3 = Some r2" by blast
  from rx_match_plus_input [OF _ this(2)] obtain C x4 r4 where
    C: "x3 = C @ x4" "C \<noteq> []" "list_all isdigit C"
    and "rx_match [lit CHR '':''] x4 = Some r4"
    by (auto simp: cmatch_Digit)
  from rx_match_lit_input [OF this(4)] obtain post where "x4 = js '':'' @ post" by blast
  with x L x2 C have "digits L \<and> digits C \<and> x = position_marker L C @ post"
    by (simp add: digits_def position_marker_def)
  then show ?thesis by blast
qed

lemma hasPositions_has_marker: "hasPositions msg = has_marker msg"
proof
  assume "hasPositions msg"
  then obtain r where "rx_exec positions_re msg = Some r"
    by (auto simp: hasPositions_def)
  from rx_exec_suffix [OF this] obtain pre x where
    "msg = pre @ x" "rx_match positions_re x = Some r" by blast
  with rx_match_positions_input [of x r] show "has_marker msg"
    by (auto simp: has_marker_def)
next
  assume "has_marker msg"
  then obtain pre L C post where "digits L" "digits C" "msg = pre @ position_marker L C @ post"
    by (auto simp: has_marker_def)
  with rx_match_positions_marker [of L C post] show "hasPositions msg"
    by (simp add: hasPositions_def rx_exec_append)
qed

lemma runAlloyFmt_thrown:
  "runAlloyFmt (Some (SpawnThrows x)) evs = Rejected x"
  "runAlloyFmt (Some (WriteThrows x)) evs = Rejected (js ''Failed to write to formatter: '' @ x)"
  by (simp_all add: runAlloyFmt_def settled_foldl_on_event)

lemma hasPositions_examples:
  "hasPositions (js ''<stdin>:2:11: expected expression'')"
  "\<not> hasPositions (js ''spawn alloy ENOENT'')"
  "\<not> hasPositions (js ''read <stdin>: EOF'')"
  "hasPositions (js ''<stdin>:5:3:'')"
  "hasPositions (js ''spawn <stdin>:1:1: ENOENT'')"
  by code_simp+

text \<open>
  C5, as the code has it.  An invocation of \<^verbatim>\<open>runAlloyFmt\<close> goes one of these ways.  If
  \<^verbatim>\<open>cp.spawn\<close> throws, the promise is rejected with that error as it is.  If writing to the
  child throws, it is rejected with \<^verbatim>\<open>Failed to write to formatter: \<close> and the message.
  Otherwise the promise is pending while only data arrives, and the first other event of the
  child settles it: a close with exit code 0 fulfils it with the standard output read so far,
  a close with another code rejects it with the standard error read so far or, when that is
  empty, with a message that names the code, and an error event rejects it with
  \<^verbatim>\<open>Failed to start formatter: \<close> and the reason.  That rejection is taken to have
  positions exactly when the reason holds a marker \<^verbatim>\<open><stdin>:digits:digits:\<close>.  The format
  action never changes the diagnostics, however the promise ends.
\<close>

theorem runAlloyFmt_outcomes:
  assumes "\<forall>e\<in>set evs. is_data e"
  shows "runAlloyFmt (Some (SpawnThrows x)) any = Rejected x
     \<and> runAlloyFmt (Some (WriteThrows x)) any = Rejected (js ''Failed to write to formatter: '' @ x)
     \<and> runAlloyFmt None evs = Pending
     \<and> runAlloyFmt None (evs @ CloseEvent code # later) =
         (if code = Some 0 then Fulfilled (stdout_text evs)
          else Rejected (if stderr_text evs \<noteq> [] then stderr_text evs
                         else js ''alloy fmt exited with code '' @ code_to_string code))
     \<and> runAlloyFmt None (evs @ ErrorEvent m # later) =
         Rejected (js ''Failed to start formatter: '' @ m)
     \<and> hasPositions (js ''Failed to start formatter: '' @ m) = has_marker m
     \<and> collection (snd (provideDocumentFormattingEdits d p s)) = collection s"
proof -
  have "runAlloyFmt None evs = Pending"
    using assms by (simp add: runAlloyFmt_def foldl_on_event_data)
  moreover have "hasPositions (js ''Failed to start formatter: '' @ m) = has_marker m"
    by (rule trans [OF hasPositions_start_failure hasPositions_has_marker])
  ultimately show ?thesis
    using assms
    by (simp add: runAlloyFmt_thrown runAlloyFmt_close runAlloyFmt_error collection_provide)
qed

theorem runAlloyFmt_outcomes_witness:
  "is_data (StdoutChunk (js ''a = '')) \<and> is_data (StdoutChunk (js ''1''))
   \<and> is_data (StderrChunk (js ''<stdin>:1:1: x''))
   \<and> runAlloyFmt None [StdoutChunk (js ''a = ''), StdoutChunk (js ''1'')] = Pending
   \<and> runAlloyFmt None [StdoutChunk (js ''a = ''), StdoutChunk (js ''1''), CloseEvent (Some 0)] =
        Fulfilled (js ''a = 1'')
   \<and> runAlloyFmt None [StderrChunk (js ''<stdin>:1:1: x''), CloseEvent (Some 1)] =
        Rejected (js ''<stdin>:1:1: x'')
   \<and> runAlloyFmt None [CloseEvent (Some 2)] = Rejected (js ''alloy fmt exited with code 2'')
   \<and> runAlloyFmt None [ErrorEvent (js ''spawn alloy ENOENT''), CloseEvent (Some (- 2))] =
        Rejected (js ''Failed to start formatter: spawn alloy ENOENT'')
   \<and> runAlloyFmt (Some (WriteThrows (js ''write EPIPE''))) [CloseEvent (Some 0)] =
        Rejected (js ''Failed to write to formatter: write EPIPE'')"
  using runAlloyFmt_outcomes [where evs = "[StdoutChunk (js ''a = ''), StdoutChunk (js ''1'')]"
      and code = "Some 0" and later = "[]" and x = "js ''write EPIPE''"
      and any = "[CloseEvent (Some 0)]"]
    runAlloyFmt_outcomes [where evs = "[StderrChunk (js ''<stdin>:1:1: x'')]" and code = "Some 1"
      and later = "[]"]
    runAlloyFmt_outcomes [where evs = "[]" and code = "Some 2" and later = "[]"]
    runAlloyFmt_outcomes [where evs = "[]" and m = "js ''spawn alloy ENOENT''"
      and later = "[CloseEvent (Some (- 2))]"]
  by (simp add: stdout_text_def stderr_text_def dec_digits.simps [of 2] js_def)

text \<open>
  Against C5 as stated, at two failures to start.  With an empty path \<^verbatim>\<open>cp.spawn\<close> throws
  in the executor, and the rejection does not begin with \<^verbatim>\<open>Failed to start formatter:\<close>.
  With the path \<^verbatim>\<open><stdin>:1:1:\<close> the child reports the failure, and the rejection holds a
  position marker.
\<close>

theorem start_failures_not_distinct:
  "runAlloyFmt (Some (SpawnThrows (js ''The argument 'file' cannot be empty. Received '' @ [0x27, 0x27]))) [] =
     Rejected (js ''The argument 'file' cannot be empty. Received '' @ [0x27, 0x27]) \<and>
   take 27 (js ''The argument 'file' cannot be empty. Received '' @ [0x27, 0x27]) \<noteq> js ''Failed to start formatter: '' \<and>
   runAlloyFmt None [ErrorEvent (js ''spawn <stdin>:1:1: ENOENT'')] =
     Rejected (js ''Failed to start formatter: spawn <stdin>:1:1: ENOENT'') \<and>
   hasPositions (js ''Failed to start formatter: spawn <stdin>:1:1: ENOENT'')"
  by code_simp

text \<open>
  C8, as the code has it.  When the promise of the formatter is rejected, the format action
  resolves to no edit, and it shows an error message exactly when the message of the
  rejection holds no position marker \<^verbatim>\<open><stdin>:digits:digits:\<close>: then one message, made of
  the message of the rejection and the hint.  With a marker nothing is shown, whatever
  the failure was.
\<close>

theorem format_failure_popup:
  "provideDocumentFormattingEdits d (Rejected msg) s =
     (Some [], if has_marker msg then s
               else s\<lparr>shown := shown s @ [js ''River format failed: '' @ msg @ js '' '' @ hint]\<rparr>)"
  by (simp add: provideDocumentFormattingEdits_def catch_callback_def hasPositions_has_marker)

theorem format_failure_popup_witness:
  "provideDocumentFormattingEdits example_doc
     (Rejected (js ''<stdin>:2:11: expected expression'')) activated = (Some [], activated) \<and>
   provideDocumentFormattingEdits example_doc (Rejected (js ''read <stdin>: EOF'')) activated =
     (Some [], activated\<lparr>shown :=
        [js ''River format failed: read <stdin>: EOF Ensure `alloy` is installed and on PATH, or set `river.alloyPath`.'']\<rparr>) \<and>
   provideDocumentFormattingEdits example_doc
     (runAlloyFmt None [ErrorEvent (js ''spawn alloy ENOENT'')]) activated =
     (Some [], activated\<lparr>shown :=
        [js ''River format failed: Failed to start formatter: spawn alloy ENOENT Ensure `alloy` is installed and on PATH, or set `river.alloyPath`.'']\<rparr>)"
proof -
  have run: "runAlloyFmt None [ErrorEvent (js ''spawn alloy ENOENT'')] =
      Rejected (js ''Failed to start formatter: '' @ js ''spawn alloy ENOENT'')"
    using runAlloyFmt_error [of "[]" "js ''spawn alloy ENOENT''" "[]"] by simp
  have marker: "has_marker (js ''<stdin>:2:11: expected expression'')"
    "\<not> has_marker (js ''read <stdin>: EOF'')"
    "\<not> has_marker (js ''Failed to start formatter: '' @ js ''spawn alloy ENOENT'')"
    using hasPositions_examples
    by (simp_all add: hasPositions_has_marker [symmetric] hasPositions_start_failure)
  show ?thesis
    using format_failure_popup [of example_doc "js ''<stdin>:2:11: expected expression''" activated]
      format_failure_popup [of example_doc "js ''read <stdin>: EOF''" activated]
      format_failure_popup [of example_doc
        "js ''Failed to start formatter: '' @ js ''spawn alloy ENOENT''" activated]
    by (simp add: run marker activated_def hint_def) (simp add: js_def)
qed

text \<open>
  Against C8 as stated, at two failures that show nothing.  The standard error
  \<^verbatim>\<open><stdin>:5:3:\<close> is of unknown shape, the parser finds no record in it, and a formatter
  at the path \<^verbatim>\<open><stdin>:1:1:\<close> cannot be started; both messages hold a marker.
\<close>

theorem failures_without_popup:
  "parseAlloyErrors (js ''<stdin>:5:3:'') = [] \<and>
   runAlloyFmt None [StderrChunk (js ''<stdin>:5:3:''), CloseEvent (Some 1)] =
     Rejected (js ''<stdin>:5:3:'') \<and>
   provideDocumentFormattingEdits example_doc
     (runAlloyFmt None [StderrChunk (js ''<stdin>:5:3:''), CloseEvent (Some 1)]) activated =
     (Some [], activated) \<and>
   provideDocumentFormattingEdits example_doc
     (runAlloyFmt None [ErrorEvent (js ''spawn <stdin>:1:1: ENOENT'')]) activated =
     (Some [], activated)"
proof -
  have 1: "runAlloyFmt None [StderrChunk (js ''<stdin>:5:3:''), CloseEvent (Some 1)] =
      Rejected (js ''<stdin>:5:3:'')"
    using runAlloyFmt_close [of "[StderrChunk (js ''<stdin>:5:3:'')]" "Some 1" "[]"]
    by (simp add: stderr_text_def js_def)
  have 2: "runAlloyFmt None [ErrorEvent (js ''spawn <stdin>:1:1: ENOENT'')] =
      Rejected (js ''Failed to start formatter: '' @ js ''spawn <stdin>:1:1: ENOENT'')"
    using runAlloyFmt_error [of "[]" "js ''spawn <stdin>:1:1: ENOENT''" "[]"] by simp
  show ?thesis
    using hasPositions_examples last_record_without_text
    by (simp add: 1 2 provideDocumentFormattingEdits_def catch_callback_def
        hasPositions_start_failure)
qed

end
